theory Spec2Isabelle
  imports Complex_Main
begin

section \<open>Clock readings and durations\<close>

text \<open>
  A \<^verbatim>\<open>time.Duration\<close> is an int64 count of nanoseconds.  A reading of
  \<^verbatim>\<open>time.Now()\<close> is modelled by its monotonic component, a count of nanoseconds;
  \<^verbatim>\<open>Time.Sub\<close> of two such readings is their difference, saturated at the largest and
  smallest \<^verbatim>\<open>Duration\<close>.  \<^verbatim>\<open>Duration.Seconds\<close> yields a float64; the
  model computes in the reals, so the rounding of float64 arithmetic is not represented.
\<close>

definition Second :: int where
  "Second = 1000000000"

definition maxDuration :: int where
  "maxDuration = 2 ^ 63 - 1"

definition minDuration :: int where
  "minDuration = - (2 ^ 63)"

definition Sub :: "int \<Rightarrow> int \<Rightarrow> int" where
  "Sub t u =
     (let d = t - u in
      if d > maxDuration then maxDuration
      else if d < minDuration then minDuration
      else d)"

definition Seconds :: "int \<Rightarrow> real" where
  "Seconds d = real_of_int d / 1000000000"

section \<open>The per-IP token bucket limiter (main.go, ipRateLimiter)\<close>

text \<open>
  \<^verbatim>\<open>type bucket struct { tokens float64; last time.Time }\<close> and
  \<^verbatim>\<open>type ipRateLimiter struct { mu; limit, rate float64; buckets map[string]*bucket }\<close>.
  Every bucket pointer is created inside \<^verbatim>\<open>Allow\<close> and stored under one key only, so
  the map of pointers is modelled as a map of bucket values.  The mutex makes each call
  atomic; a run of the limiter is a sequence of calls.
\<close>

record bucket =
  tokens :: real
  last_time :: int

record ipRateLimiter =
  limit :: real
  rate :: real
  buckets :: "string \<rightharpoonup> bucket"

definition newIPRateLimiter :: "int \<Rightarrow> int \<Rightarrow> ipRateLimiter" where
  "newIPRateLimiter maxReq window =
     (let window' = (if window \<le> 0 then 10 * Second else window);
          lim = real_of_int maxReq
      in \<lparr> limit = lim, rate = lim / Seconds window', buckets = Map.empty \<rparr>)"

text \<open>The refill step of \<^verbatim>\<open>Allow\<close>: the block guarded by \<^verbatim>\<open>elapsed > 0\<close>.\<close>

definition refill :: "ipRateLimiter \<Rightarrow> bucket \<Rightarrow> int \<Rightarrow> bucket" where
  "refill rl b now =
     (let elapsed = Seconds (Sub now (last_time b)) in
      if elapsed > 0 then
        (let t = tokens b + elapsed * rate rl in
         \<lparr> tokens = (if t > limit rl then limit rl else t), last_time = now \<rparr>)
      else b)"

text \<open>
  \<^verbatim>\<open>Allow(ip)\<close> with the clock reading it takes as an argument; it returns the
  verdict and the limiter after the call.  A rejected call keeps the refilled bucket.
\<close>

definition Allow :: "ipRateLimiter \<Rightarrow> string \<Rightarrow> int \<Rightarrow> bool \<times> ipRateLimiter" where
  "Allow rl ip now =
     (case buckets rl ip of
        None \<Rightarrow>
          (True, rl\<lparr> buckets := (buckets rl)(ip \<mapsto> \<lparr> tokens = limit rl - 1, last_time = now \<rparr>) \<rparr>)
      | Some b \<Rightarrow>
          (let b' = refill rl b now in
           if tokens b' < 1 then (False, rl\<lparr> buckets := (buckets rl)(ip \<mapsto> b') \<rparr>)
           else (True, rl\<lparr> buckets := (buckets rl)(ip \<mapsto> b'\<lparr> tokens := tokens b' - 1 \<rparr>) \<rparr>)))"

definition defaultIPLimiter :: ipRateLimiter where
  "defaultIPLimiter = newIPRateLimiter 300 (10 * Second)"

text \<open>A sequence of calls, each an IP with the clock reading of the call.\<close>

fun Allow_seq :: "ipRateLimiter \<Rightarrow> (string \<times> int) list \<Rightarrow> bool list \<times> ipRateLimiter" where
  "Allow_seq rl [] = ([], rl)"
| "Allow_seq rl (c # cs) =
     (let r = Allow rl (fst c) (snd c);
          rs = Allow_seq (snd r) cs
      in (fst r # fst rs, snd rs))"

section \<open>Bytes, strings and the library's string functions\<close>

text \<open>
  A Go string is a sequence of bytes; \<^typ>\<open>string\<close> is a list of 8-bit characters.  The
  functions of this section are those of the Go library that the program's code calls on
  strings, written out as the library computes them.
\<close>

definition byte :: "char \<Rightarrow> nat" where
  "byte c = of_char c"

definition isLower :: "char \<Rightarrow> bool" where
  "isLower c = (97 \<le> byte c \<and> byte c \<le> 122)"

definition isUpper :: "char \<Rightarrow> bool" where
  "isUpper c = (65 \<le> byte c \<and> byte c \<le> 90)"

definition isDigit :: "char \<Rightarrow> bool" where
  "isDigit c = (48 \<le> byte c \<and> byte c \<le> 57)"

definition toUpper :: "char \<Rightarrow> char" where
  "toUpper c = (if isLower c then char_of (byte c - 32) else c)"

definition toLower :: "char \<Rightarrow> char" where
  "toLower c = (if isUpper c then char_of (byte c + 32) else c)"

text \<open>\<^verbatim>\<open>strings.Split(s, ",")\<close>: the pieces between commas; never an empty list.\<close>

fun Split_comma :: "string \<Rightarrow> string list" where
  "Split_comma [] = [[]]"
| "Split_comma (c # cs) =
     (if c = CHR '','' then [] # Split_comma cs
      else (case Split_comma cs of
              p # ps \<Rightarrow> (c # p) # ps
            | [] \<Rightarrow> [[c]]))"

text \<open>\<^verbatim>\<open>strings.Join(xs, ", ")\<close>.\<close>

fun Join_comma_space :: "string list \<Rightarrow> string" where
  "Join_comma_space [] = []"
| "Join_comma_space [x] = x"
| "Join_comma_space (x # y # ys) = x @ '', '' @ Join_comma_space (y # ys)"

text \<open>
  \<^verbatim>\<open>strings.TrimSpace\<close> removes leading and trailing white space as Unicode defines
  it.  On the bytes of a string these are the six ASCII characters tab, line feed,
  vertical tab, form feed, carriage return and space, and the UTF-8 encodings of U+0085,
  U+00A0, U+1680, U+2000 to U+200A, U+2028, U+2029, U+202F, U+205F and U+3000.
\<close>

definition spaceRunes :: "string list" where
  "spaceRunes = map (map char_of)
     [[9::nat], [10], [11], [12], [13], [32],
      [194, 133], [194, 160], [225, 154, 128],
      [226, 128, 128], [226, 128, 129], [226, 128, 130], [226, 128, 131],
      [226, 128, 132], [226, 128, 133], [226, 128, 134], [226, 128, 135],
      [226, 128, 136], [226, 128, 137], [226, 128, 138],
      [226, 128, 168], [226, 128, 169], [226, 128, 175],
      [226, 129, 159], [227, 128, 128]]"

definition leadingLen :: "string list \<Rightarrow> string \<Rightarrow> nat" where
  "leadingLen pats s =
     (case find (\<lambda>p. p \<noteq> [] \<and> take (length p) s = p) pats of
        Some p \<Rightarrow> length p
      | None \<Rightarrow> 0)"

function trimLeading :: "string list \<Rightarrow> string \<Rightarrow> string" where
  "trimLeading pats s =
     (if leadingLen pats s = 0 then s else trimLeading pats (drop (leadingLen pats s) s))"
  by pat_completeness auto
termination
proof (relation "measure (\<lambda>(pats, s). length s)")
  show "wf (measure (\<lambda>(pats, s). length s))"
    by simp
next
  fix pats :: "string list" and s :: string
  assume n: "leadingLen pats s \<noteq> 0"
  then obtain p where "find (\<lambda>p. p \<noteq> [] \<and> take (length p) s = p) pats = Some p"
    by (auto simp: leadingLen_def split: option.splits)
  then have "p \<noteq> []" and "take (length p) s = p"
    by (auto simp: find_Some_iff)
  then have "s \<noteq> []"
    by auto
  with n show "((pats, drop (leadingLen pats s) s), (pats, s)) \<in> measure (\<lambda>(pats, s). length s)"
    by simp
qed

declare trimLeading.simps [simp del]

definition TrimSpace :: "string \<Rightarrow> string" where
  "TrimSpace s = rev (trimLeading (map rev spaceRunes) (rev (trimLeading spaceRunes s)))"

text \<open>\<^verbatim>\<open>textproto.TrimString\<close> removes leading and trailing space, tab, CR and LF.\<close>

definition isASCIISpace :: "char \<Rightarrow> bool" where
  "isASCIISpace c = (byte c \<in> set [32, 9, 10, 13])"

definition TrimString :: "string \<Rightarrow> string" where
  "TrimString s = rev (dropWhile isASCIISpace (rev (dropWhile isASCIISpace s)))"

text \<open>\<^verbatim>\<open>strings.IndexByte\<close> and \<^verbatim>\<open>strings.LastIndexByte\<close>: \<open>-1\<close> when absent.\<close>

fun IndexByte :: "string \<Rightarrow> char \<Rightarrow> int" where
  "IndexByte [] c = - 1"
| "IndexByte (x # xs) c =
     (if x = c then 0
      else (let i = IndexByte xs c in if i < 0 then - 1 else i + 1))"

definition LastIndexByte :: "string \<Rightarrow> char \<Rightarrow> int" where
  "LastIndexByte s c =
     (let i = IndexByte (rev s) c in if i < 0 then - 1 else int (length s) - 1 - i)"

text \<open>
  \<^verbatim>\<open>net.SplitHostPort\<close>.  The slices \<^verbatim>\<open>hostport[a:b]\<close> are written with
  \<^const>\<open>take\<close> and \<^const>\<open>drop\<close>; every index read is in range on the branch that
  reads it (the address has a colon, so it is not empty; \<open>end + 1\<close> is below the length
  on the default branch of the switch).
\<close>

datatype AddrError =
  missingPort | tooManyColons | missingBracket | unexpectedLeftBracket | unexpectedRightBracket

definition SplitHostPort :: "string \<Rightarrow> AddrError + string \<times> string" where
  "SplitHostPort hostport =
     (let i = LastIndexByte hostport CHR '':'' in
      if i < 0 then Inl missingPort
      else if take 1 hostport = ''[''
      then
        (let e = IndexByte hostport CHR '']'' in
         if e < 0 then Inl missingBracket
         else if e + 1 = int (length hostport) then Inl missingPort
         else if e + 1 \<noteq> i then
           (if hostport ! nat (e + 1) = CHR '':'' then Inl tooManyColons else Inl missingPort)
         else if 0 \<le> IndexByte (drop 1 hostport) CHR ''['' then Inl unexpectedLeftBracket
         else if 0 \<le> IndexByte (drop (nat (e + 1)) hostport) CHR '']''
           then Inl unexpectedRightBracket
         else Inr (take (nat e - 1) (drop 1 hostport), drop (nat (i + 1)) hostport))
      else
        (let host = take (nat i) hostport in
         if 0 \<le> IndexByte host CHR '':'' then Inl tooManyColons
         else if 0 \<le> IndexByte hostport CHR ''['' then Inl unexpectedLeftBracket
         else if 0 \<le> IndexByte hostport CHR '']'' then Inl unexpectedRightBracket
         else Inr (host, drop (nat (i + 1)) hostport)))"

section \<open>HTTP headers (net/http, net/textproto)\<close>

text \<open>
  \<^verbatim>\<open>http.Header\<close> is \<^verbatim>\<open>map[string][]string\<close>.  \<^verbatim>\<open>Get\<close>, \<^verbatim>\<open>Set\<close> and
  \<^verbatim>\<open>Del\<close> canonicalise the key they are given with
  \<^verbatim>\<open>textproto.CanonicalMIMEHeaderKey\<close>: a key made of header-field bytes only gets an
  upper-case first letter and an upper-case letter after each hyphen, the other letters in
  lower case; any other key is left as it is.  The server stores the headers of a request
  it has parsed under their canonical keys.  A key bound to the empty list stands for a
  key bound to \<^verbatim>\<open>nil\<close>.
\<close>

type_synonym Header = "string \<rightharpoonup> string list"

definition validHeaderFieldByte :: "char \<Rightarrow> bool" where
  "validHeaderFieldByte c =
     (isLower c \<or> isUpper c \<or> isDigit c \<or>
      byte c \<in> set [33, 35, 36, 37, 38, 39, 42, 43, 45, 46, 94, 95, 96, 124, 126])"

fun canon :: "bool \<Rightarrow> string \<Rightarrow> string" where
  "canon upper [] = []"
| "canon upper (c # cs) =
     (let c' = (if upper \<and> isLower c then toUpper c
                else if \<not> upper \<and> isUpper c then toLower c
                else c)
      in c' # canon (c' = CHR ''-'') cs)"

definition CanonicalMIMEHeaderKey :: "string \<Rightarrow> string" where
  "CanonicalMIMEHeaderKey s = (if list_all validHeaderFieldByte s then canon True s else s)"

definition Get :: "Header \<Rightarrow> string \<Rightarrow> string" where
  "Get h key =
     (case h (CanonicalMIMEHeaderKey key) of
        None \<Rightarrow> []
      | Some [] \<Rightarrow> []
      | Some (v # vs) \<Rightarrow> v)"

definition Set :: "Header \<Rightarrow> string \<Rightarrow> string \<Rightarrow> Header" where
  "Set h key v = h(CanonicalMIMEHeaderKey key \<mapsto> [v])"

definition Del :: "Header \<Rightarrow> string \<Rightarrow> Header" where
  "Del h key = h(CanonicalMIMEHeaderKey key := None)"

text \<open>\<^verbatim>\<open>h[key]\<close>: the direct map index, \<^verbatim>\<open>nil\<close> for a missing key.\<close>

definition values_of :: "Header \<Rightarrow> string \<Rightarrow> string list" where
  "values_of h key = (case h key of None \<Rightarrow> [] | Some vs \<Rightarrow> vs)"

section \<open>The request and its rewriting (main.go, newReverseProxy)\<close>

text \<open>
  The fields of \<^verbatim>\<open>http.Request\<close> that the program reads or writes.  The raw path and
  the query of the URL are left out: nothing below depends on them.
\<close>

record Request =
  URL_Scheme :: string
  URL_Host :: string
  URL_Path :: string
  Host :: string
  Header :: Header
  RemoteAddr :: string

definition targetScheme :: string where
  "targetScheme = ''https''"

definition targetHost :: string where
  "targetHost = ''translate.google.com''"

text \<open>
  The director that \<^verbatim>\<open>httputil.NewSingleHostReverseProxy\<close> installs for the target
  \<^verbatim>\<open>https://translate.google.com\<close>, whose path is empty: it points the URL at the
  target and joins the two paths with a single slash.
\<close>

definition originalDirector :: "Request \<Rightarrow> Request" where
  "originalDirector req =
     req\<lparr> URL_Scheme := targetScheme,
          URL_Host := targetHost,
          URL_Path := (if take 1 (URL_Path req) = ''/'' then URL_Path req
                       else ''/'' @ URL_Path req) \<rparr>"

definition strippedHeaders :: "string list" where
  "strippedHeaders =
     [''X-Real-IP'', ''X-Forwarded-For'', ''X-Forwarded-Host'', ''X-Forwarded-Proto'',
      ''Forwarded'', ''Via'', ''Proxy-Connection'']"

definition browserUserAgent :: string where
  "browserUserAgent =
     ''Mozilla/5.0 (Windows NT 10.0; Win64; x64) '' @
     ''AppleWebKit/537.36 (KHTML, like Gecko) '' @
     ''Chrome/124.0.0.0 Safari/537.36''"

definition defaultAcceptLanguage :: string where
  "defaultAcceptLanguage = ''zh-CN,zh;q=0.9,en;q=0.8''"

definition defaultAcceptEncoding :: string where
  "defaultAcceptEncoding = ''gzip, deflate, br''"

definition Director :: "Request \<Rightarrow> Request" where
  "Director req0 =
     (let req1 = originalDirector req0;
          req2 = req1\<lparr> URL_Scheme := targetScheme, URL_Host := targetHost, Host := targetHost \<rparr>;
          h1 = fold (\<lambda>k h. Del h k) strippedHeaders (Header req2);
          h2 = Set h1 ''User-Agent'' browserUserAgent;
          h3 = (if Get h2 ''Accept-Language'' = [] then Set h2 ''Accept-Language'' defaultAcceptLanguage
                else h2);
          h4 = (if Get h3 ''Accept-Encoding'' = [] then Set h3 ''Accept-Encoding'' defaultAcceptEncoding
                else h3)
      in req2\<lparr> Header := h4 \<rparr>)"

section \<open>What the reverse proxy does to the request after the director\<close>

text \<open>
  \<^verbatim>\<open>httputil.ReverseProxy.ServeHTTP\<close> (Go 1.24, the toolchain of the Dockerfile), for a
  proxy with a \<^verbatim>\<open>Director\<close>: it clones the inbound request, calls the director on
  the clone, refuses a non-printable upgrade type, removes the hop-by-hop headers,
  restores \<^verbatim>\<open>Te: trailers\<close> and the upgrade headers, appends the client address to
  \<^verbatim>\<open>X-Forwarded-For\<close> unless that key is bound to \<^verbatim>\<open>nil\<close>, binds a missing
  \<^verbatim>\<open>User-Agent\<close> to the empty string, and hands the clone to the transport.
\<close>

definition isOWS :: "char \<Rightarrow> bool" where
  "isOWS c = (byte c = 32 \<or> byte c = 9)"

definition trimOWS :: "string \<Rightarrow> string" where
  "trimOWS s = rev (dropWhile isOWS (rev (dropWhile isOWS s)))"

definition tokenEqual :: "string \<Rightarrow> string \<Rightarrow> bool" where
  "tokenEqual t1 t2 =
     (length t1 = length t2 \<and> list_all (\<lambda>b. byte b < 128) t1 \<and> map toLower t1 = map toLower t2)"

definition headerValueContainsToken :: "string \<Rightarrow> string \<Rightarrow> bool" where
  "headerValueContainsToken v token = list_ex (\<lambda>p. tokenEqual (trimOWS p) token) (Split_comma v)"

definition HeaderValuesContainsToken :: "string list \<Rightarrow> string \<Rightarrow> bool" where
  "HeaderValuesContainsToken vs token = list_ex (\<lambda>v. headerValueContainsToken v token) vs"

definition upgradeType :: "Header \<Rightarrow> string" where
  "upgradeType h =
     (if \<not> HeaderValuesContainsToken (values_of h ''Connection'') ''Upgrade'' then []
      else Get h ''Upgrade'')"

definition IsPrint :: "string \<Rightarrow> bool" where
  "IsPrint s = list_all (\<lambda>c. 32 \<le> byte c \<and> byte c \<le> 126) s"

definition hopHeaders :: "string list" where
  "hopHeaders =
     [''Connection'', ''Proxy-Connection'', ''Keep-Alive'', ''Proxy-Authenticate'',
      ''Proxy-Authorization'', ''Te'', ''Trailer'', ''Transfer-Encoding'', ''Upgrade'']"

definition connectionTokens :: "Header \<Rightarrow> string list" where
  "connectionTokens h =
     filter (\<lambda>sf. sf \<noteq> []) (map TrimString (concat (map Split_comma (values_of h ''Connection''))))"

definition removeHopByHopHeaders :: "Header \<Rightarrow> Header" where
  "removeHopByHopHeaders h =
     fold (\<lambda>f h'. Del h' f) hopHeaders (fold (\<lambda>sf h'. Del h' sf) (connectionTokens h) h)"

definition addForwardedFor :: "string \<Rightarrow> Header \<Rightarrow> Header" where
  "addForwardedFor remoteAddr h =
     (case SplitHostPort remoteAddr of
        Inl err \<Rightarrow> h
      | Inr hp \<Rightarrow>
          (case h ''X-Forwarded-For'' of
             None \<Rightarrow> Set h ''X-Forwarded-For'' (fst hp)
           | Some [] \<Rightarrow> h
           | Some (p # ps) \<Rightarrow>
               Set h ''X-Forwarded-For'' (Join_comma_space (p # ps) @ '', '' @ fst hp)))"

text \<open>
  The request handed to the transport, or \<open>None\<close> when the proxy answers through its error
  handler without forwarding anything.
\<close>

definition outreq :: "Request \<Rightarrow> Request option" where
  "outreq req =
     (let out = Director req;
          reqUpType = upgradeType (Header out)
      in if \<not> IsPrint reqUpType then None
         else
           (let h1 = removeHopByHopHeaders (Header out);
                h2 = (if HeaderValuesContainsToken (values_of (Header req) ''Te'') ''trailers''
                      then Set h1 ''Te'' ''trailers'' else h1);
                h3 = (if reqUpType \<noteq> []
                      then Set (Set h2 ''Connection'' ''Upgrade'') ''Upgrade'' reqUpType else h2);
                h4 = addForwardedFor (RemoteAddr req) h3;
                h5 = (if h4 ''User-Agent'' = None then Set h4 ''User-Agent'' [] else h4)
            in Some (out\<lparr> Header := h5 \<rparr>)))"

section \<open>The client address (main.go, clientIP)\<close>

definition clientIP :: "Request \<Rightarrow> string" where
  "clientIP r =
     (let xff = Get (Header r) ''X-Forwarded-For'' in
      if xff \<noteq> [] then TrimSpace (hd (Split_comma xff))
      else
        (let xr = Get (Header r) ''X-Real-IP'' in
         if xr \<noteq> [] then TrimSpace xr
         else
           (case SplitHostPort (RemoteAddr r) of
              Inl err \<Rightarrow> RemoteAddr r
            | Inr hp \<Rightarrow> fst hp)))"

section \<open>The access-log queue (main.go, setupLogging and loggingMiddleware)\<close>

text \<open>
  \<^verbatim>\<open>accessLogCh = make(chan string, 10000)\<close>: a buffered channel is its pending entries in
  order and its capacity.  The program never closes the channel.  The \<^verbatim>\<open>select\<close> with
  a \<^verbatim>\<open>default\<close> branch sends when the buffer has room and otherwise takes the default
  branch at once.
\<close>

record chan =
  pending :: "string list"
  capacity :: nat

definition make_chan :: "nat \<Rightarrow> chan" where
  "make_chan n = \<lparr> pending = [], capacity = n \<rparr>"

definition select_send_default :: "chan \<Rightarrow> string \<Rightarrow> chan" where
  "select_send_default ch msg =
     (if length (pending ch) < capacity ch then ch\<lparr> pending := pending ch @ [msg] \<rparr> else ch)"

section \<open>Responses, handlers and the middleware chain (main.go, main)\<close>

record Response =
  status :: nat
  resp_header :: Header
  resp_body :: string

text \<open>
  What a handler reads from outside the program during one request: the clock reading
  taken in \<^verbatim>\<open>Allow\<close>, the text that \<^verbatim>\<open>time.Now().Format(time.RFC3339)\<close> yields in
  the health handler, the transport's answer to a forwarded request (an error or the
  upstream's response), and \<^verbatim>\<open>strconv.Quote\<close>, which renders \<^verbatim>\<open>%q\<close>.
\<close>

record Env =
  clock :: int
  rfc3339 :: string
  roundTrip :: "Request \<Rightarrow> string + Response"
  quote :: "string \<Rightarrow> string"

record Server =
  limiter :: ipRateLimiter
  accessLogCh :: "chan option"

definition textPlain :: string where
  "textPlain = ''text/plain; charset=utf-8''"

definition healthz :: "Env \<Rightarrow> Response" where
  "healthz env =
     \<lparr> status = 200,
       resp_header = Set Map.empty ''Content-Type'' textPlain,
       resp_body = ''ok '' @ rfc3339 env \<rparr>"

text \<open>
  The error handler of the proxy: \<^verbatim>\<open>http.Error(rw, "Upstream error", 502)\<close>.  The line
  it logs goes to the error log and is not part of the response.
\<close>

definition upstreamError :: Response where
  "upstreamError =
     \<lparr> status = 502,
       resp_header = Set (Set Map.empty ''Content-Type'' textPlain) ''X-Content-Type-Options'' ''nosniff'',
       resp_body = ''Upstream error'' @ [char_of (10::nat)] \<rparr>"

text \<open>
  \<^verbatim>\<open>proxyRP.ServeHTTP\<close>: the response of the upstream is relayed as the transport
  returns it; what the library changes in the response on the way back is not modelled.
\<close>

definition proxyServeHTTP :: "Env \<Rightarrow> Request \<Rightarrow> Response" where
  "proxyServeHTTP env r =
     (case outreq r of
        None \<Rightarrow> upstreamError
      | Some out \<Rightarrow>
          (case roundTrip env out of
             Inl err \<Rightarrow> upstreamError
           | Inr res \<Rightarrow> res))"

text \<open>
  The mux has the patterns \<^verbatim>\<open>/healthz\<close>, which matches that path only, and \<^verbatim>\<open>/\<close>,
  which matches every other path.  The redirect that \<^verbatim>\<open>http.ServeMux\<close> sends for a
  path that is not in its clean form is not modelled.
\<close>

definition mux :: "Env \<Rightarrow> Request \<Rightarrow> Response" where
  "mux env r = (if URL_Path r = ''/healthz'' then healthz env else proxyServeHTTP env r)"

definition tooManyRequests :: Response where
  "tooManyRequests =
     \<lparr> status = 429,
       resp_header = Set Map.empty ''Content-Type'' textPlain,
       resp_body = ''Too Many Requests'' @ [char_of (10::nat)] \<rparr>"

definition rateLimitMiddleware ::
  "(Env \<Rightarrow> Request \<Rightarrow> Response) \<Rightarrow> Env \<Rightarrow> Server \<Rightarrow> Request \<Rightarrow> Response \<times> Server" where
  "rateLimitMiddleware next env s r =
     (let ip = clientIP r;
          a = Allow (limiter s) ip (clock env);
          s' = s\<lparr> limiter := snd a \<rparr>
      in if \<not> fst a then (tooManyRequests, s') else (next env r, s'))"

definition loggingMiddleware ::
  "(Env \<Rightarrow> Server \<Rightarrow> Request \<Rightarrow> Response \<times> Server) \<Rightarrow> Env \<Rightarrow> Server \<Rightarrow> Request
     \<Rightarrow> Response \<times> Server" where
  "loggingMiddleware next env s r =
     (let res = next env s r;
          s1 = snd res;
          ip = clientIP r;
          ua = Get (Header r) ''User-Agent''
      in case accessLogCh s1 of
           None \<Rightarrow> (fst res, s1)
         | Some ch \<Rightarrow>
             (let msg = ''[INFO] access: ip='' @ ip @ '' ua='' @ quote env ua
              in (fst res, s1\<lparr> accessLogCh := Some (select_send_default ch msg) \<rparr>)))"

text \<open>\<^verbatim>\<open>Handler: loggingMiddleware(rateLimitMiddleware(mux))\<close>.\<close>

definition handler :: "Env \<Rightarrow> Server \<Rightarrow> Request \<Rightarrow> Response \<times> Server" where
  "handler = loggingMiddleware (rateLimitMiddleware mux)"

section \<open>The day-rotating log writer (main.go, dailyFileWriter)\<close>

text \<open>
  An open \<^verbatim>\<open>*os.File\<close> is identified by the path it was opened at; \<open>None\<close> is the
  \<^verbatim>\<open>nil\<close> file.  The operating system's answers are read from \<open>OS\<close>: its path
  separator (\<^verbatim>\<open>os.PathSeparator\<close>; the Makefile builds for Linux, macOS and Windows), the error of
  \<^verbatim>\<open>os.MkdirAll\<close> and of \<^verbatim>\<open>os.OpenFile\<close> for a path (\<open>None\<close> for success), and
  the count and error that a write to a sink returns.  Each call also yields the
  operations it performed, in order.
\<close>

datatype sink = Stdout | LogFile string

datatype effect = MkdirAll string | OpenFile string | Close string | WriteTo sink string

record OS =
  pathSeparator :: char
  mkdirAll :: "string \<Rightarrow> string option"
  openFile :: "string \<Rightarrow> string option"
  writeTo :: "sink \<Rightarrow> string \<Rightarrow> int \<times> string option"

record dailyFileWriter =
  dir :: string
  prefix :: string
  currentDate :: string
  file_h :: "string option"

definition newDailyFileWriter :: "string \<Rightarrow> string \<Rightarrow> dailyFileWriter" where
  "newDailyFileWriter d p = \<lparr> dir = d, prefix = p, currentDate = [], file_h = None \<rparr>"

definition rotate ::
  "OS \<Rightarrow> dailyFileWriter \<Rightarrow> string \<Rightarrow> string option \<times> dailyFileWriter \<times> effect list" where
  "rotate os w date =
     (case mkdirAll os (dir w) of
        Some err \<Rightarrow> (Some err, w, [MkdirAll (dir w)])
      | None \<Rightarrow>
          (let filename = prefix w @ ''-'' @ date @ ''.log'';
               path = dir w @ [pathSeparator os] @ filename
           in case openFile os path of
                Some err \<Rightarrow> (Some err, w, [MkdirAll (dir w), OpenFile path])
              | None \<Rightarrow>
                  (None, w\<lparr> file_h := Some path, currentDate := date \<rparr>,
                   [MkdirAll (dir w), OpenFile path] @
                   (case file_h w of None \<Rightarrow> [] | Some f \<Rightarrow> [Close f]))))"

text \<open>
  \<^verbatim>\<open>w.file.Write(p)\<close>: a write through a \<^verbatim>\<open>nil\<close> \<^verbatim>\<open>*os.File\<close> returns
  \<^verbatim>\<open>os.ErrInvalid\<close> and writes nothing.
\<close>

definition file_Write ::
  "OS \<Rightarrow> dailyFileWriter \<Rightarrow> string \<Rightarrow> (int \<times> string option) \<times> effect list" where
  "file_Write os w p =
     (case file_h w of
        None \<Rightarrow> ((0, Some ''invalid argument''), [])
      | Some f \<Rightarrow> (writeTo os (LogFile f) p, [WriteTo (LogFile f) p]))"

text \<open>
  \<^verbatim>\<open>Write(p)\<close>, with \<open>today\<close> the text of \<^verbatim>\<open>time.Now().Format("2006-01-02")\<close>.  It
  returns the pair \<^verbatim>\<open>(int, error)\<close>, the writer after the call and the operations
  performed.
\<close>

definition Write ::
  "OS \<Rightarrow> dailyFileWriter \<Rightarrow> string \<Rightarrow> string
     \<Rightarrow> (int \<times> string option) \<times> dailyFileWriter \<times> effect list" where
  "Write os w today p =
     (if file_h w = None \<or> currentDate w \<noteq> today then
        (case rotate os w today of
           (Some err, w', es) \<Rightarrow> (writeTo os Stdout p, w', es @ [WriteTo Stdout p])
         | (None, w', es) \<Rightarrow> (fst (file_Write os w' p), w', es @ snd (file_Write os w' p)))
      else (fst (file_Write os w p), w, snd (file_Write os w p)))"

section \<open>The buffer pool (main.go, byteBufferPool)\<close>

text \<open>
  A \<^verbatim>\<open>[]byte\<close> is modelled by its length and its capacity; \<open>None\<close> is the \<^verbatim>\<open>nil\<close>
  slice.  A \<^verbatim>\<open>sync.Pool\<close> is the list of the items it holds.  \<^verbatim>\<open>sync.Pool.Get\<close>
  hands back an item of its choice and removes it, or finds none and calls \<^verbatim>\<open>New\<close>;
  the choice is the argument \<open>pick\<close>, the position of the item or \<open>None\<close>.
\<close>

record slice =
  len :: nat
  cap :: nat

definition make_bytes :: "nat \<Rightarrow> slice" where
  "make_bytes n = \<lparr> len = n, cap = n \<rparr>"

record byteBufferPool =
  pool :: "slice list"

definition pool_New :: slice where
  "pool_New = make_bytes (32 * 1024)"

definition sync_Pool_Get :: "slice list \<Rightarrow> nat option \<Rightarrow> slice option \<times> slice list" where
  "sync_Pool_Get items pick =
     (case pick of
        None \<Rightarrow> (Some pool_New, items)
      | Some i \<Rightarrow>
          (if i < length items then (Some (items ! i), take i items @ drop (Suc i) items)
           else (Some pool_New, items)))"

definition pool_Get :: "byteBufferPool \<Rightarrow> nat option \<Rightarrow> slice \<times> byteBufferPool" where
  "pool_Get p pick =
     (let g = sync_Pool_Get (pool p) pick in
      case fst g of
        Some v \<Rightarrow> (v, p\<lparr> pool := snd g \<rparr>)
      | None \<Rightarrow> (make_bytes (32 * 1024), p\<lparr> pool := snd g \<rparr>))"

definition pool_Put :: "byteBufferPool \<Rightarrow> slice option \<Rightarrow> byteBufferPool" where
  "pool_Put p b =
     (case b of
        None \<Rightarrow> p
      | Some s \<Rightarrow> p\<lparr> pool := pool p @ [s\<lparr> len := 0 \<rparr>] \<rparr>)"

section \<open>Notions used to state the properties of the limiter\<close>

text \<open>Every bucket of the map holds a token count between 0 and the capacity.\<close>

definition bucket_ok :: "ipRateLimiter \<Rightarrow> bool" where
  "bucket_ok rl = (\<forall>ip b. buckets rl ip = Some b \<longrightarrow> 0 \<le> tokens b \<and> tokens b \<le> limit rl)"

text \<open>The verdicts, in order, of the calls of a sequence that were made for one IP.\<close>

definition verdicts_for :: "string \<Rightarrow> (string \<times> int) list \<Rightarrow> bool list \<Rightarrow> bool list" where
  "verdicts_for ip calls rs = map snd (filter (\<lambda>cr. fst (fst cr) = ip) (zip calls rs))"

section \<open>Notions used to state the properties of the forwarded request\<close>

text \<open>
  The inbound \<^verbatim>\<open>Connection\<close> header names a header as hop-by-hop: one of its
  comma-separated tokens has the same canonical key.
\<close>

definition hopListed :: "Header \<Rightarrow> string \<Rightarrow> bool" where
  "hopListed h name =
     (CanonicalMIMEHeaderKey name \<in> set (map CanonicalMIMEHeaderKey (connectionTokens h)))"

text \<open>
  The client address as the claim words it, with a header counted as present when the
  map binds its key to at least one value, whatever the value.
\<close>

definition clientIP_as_stated :: "Request \<Rightarrow> string" where
  "clientIP_as_stated r =
     (case Header r ''X-Forwarded-For'' of
        Some (v # vs) \<Rightarrow> TrimSpace (hd (Split_comma v))
      | _ \<Rightarrow>
          (case Header r ''X-Real-Ip'' of
             Some (v # vs) \<Rightarrow> TrimSpace v
           | _ \<Rightarrow>
               (case SplitHostPort (RemoteAddr r) of
                  Inl err \<Rightarrow> RemoteAddr r
                | Inr hp \<Rightarrow> fst hp)))"

text \<open>A request of a client connected over TCP from 203.0.113.7, with the given headers.\<close>

definition sample_request :: "Header \<Rightarrow> Request" where
  "sample_request h =
     \<lparr> URL_Scheme = [], URL_Host = [], URL_Path = ''/'', Host = ''proxy.example:8080'',
       Header = h, RemoteAddr = ''203.0.113.7:51234'' \<rparr>"

section \<open>Sample surroundings for concrete runs\<close>

text \<open>
  An environment whose upstream refuses the connection, a server with the queue of
  \<^verbatim>\<open>setupLogging\<close> holding the given entries, a request for the health path, and an
  operating system that creates the directory and then fails to open the file.
\<close>

definition sample_env :: Env where
  "sample_env =
     \<lparr> clock = 0, rfc3339 = ''2025-01-01T12:00:00Z'',
       roundTrip = (\<lambda>out. Inl ''connection refused''),
       quote = (\<lambda>s. [char_of (34::nat)] @ s @ [char_of (34::nat)]) \<rparr>"

definition sample_server :: "ipRateLimiter \<Rightarrow> string list \<Rightarrow> Server" where
  "sample_server rl entries =
     \<lparr> limiter = rl, accessLogCh = Some \<lparr> pending = entries, capacity = 10000 \<rparr> \<rparr>"

definition healthz_request :: Request where
  "healthz_request = (sample_request Map.empty)\<lparr> URL_Path := ''/healthz'' \<rparr>"

definition failing_os :: OS where
  "failing_os =
     \<lparr> pathSeparator = CHR ''/'',
       mkdirAll = (\<lambda>d. None),
       openFile = (\<lambda>path. Some ''permission denied''),
       writeTo = (\<lambda>k p. (int (length p), None)) \<rparr>"

section \<open>Limiter: bounds on the token count\<close>

lemma Seconds_pos_iff: "0 < Seconds d \<longleftrightarrow> 0 < d"
  by (simp add: Seconds_def)

lemma Allow_limit: "limit (snd (Allow rl ip now)) = limit rl"
  by (simp add: Allow_def Let_def split: option.splits)

lemma Allow_rate: "rate (snd (Allow rl ip now)) = rate rl"
  by (simp add: Allow_def Let_def split: option.splits)

lemma Allow_seq_limit: "limit (snd (Allow_seq rl cs)) = limit rl"
  by (induction cs arbitrary: rl) (simp_all add: Let_def Allow_limit)

lemma Allow_seq_rate: "rate (snd (Allow_seq rl cs)) = rate rl"
  by (induction cs arbitrary: rl) (simp_all add: Let_def Allow_rate)

lemma refill_bounds:
  assumes "0 \<le> rate rl" and "0 \<le> tokens b" and "tokens b \<le> limit rl"
  shows "0 \<le> tokens (refill rl b now) \<and> tokens (refill rl b now) \<le> limit rl"
proof (cases "0 < Seconds (Sub now (last_time b))")
  case True
  then have "0 \<le> Seconds (Sub now (last_time b)) * rate rl"
    using assms(1) by simp
  then show ?thesis
    using True assms by (simp add: refill_def Let_def)
next
  case False
  then show ?thesis
    using assms by (simp add: refill_def Let_def)
qed

lemma Allow_bucket_ok:
  assumes "1 \<le> limit rl" and "0 \<le> rate rl" and "bucket_ok rl"
  shows "bucket_ok (snd (Allow rl ip now))"
proof (cases "buckets rl ip")
  case None
  then show ?thesis
    using assms by (auto simp: Allow_def bucket_ok_def)
next
  case (Some b)
  with assms(3) have b: "0 \<le> tokens b" "tokens b \<le> limit rl"
    by (auto simp: bucket_ok_def)
  from refill_bounds [OF assms(2) b, of now]
  have r: "0 \<le> tokens (refill rl b now)" "tokens (refill rl b now) \<le> limit rl"
    by simp_all
  show ?thesis
    using Some assms(3) r by (auto simp: Allow_def bucket_ok_def Let_def)
qed

lemma Allow_seq_bucket_ok:
  assumes "1 \<le> limit rl" and "0 \<le> rate rl" and "bucket_ok rl"
  shows "bucket_ok (snd (Allow_seq rl cs))"
  using assms
proof (induction cs arbitrary: rl)
  case Nil
  then show ?case by simp
next
  case (Cons c cs)
  have "bucket_ok (snd (Allow rl (fst c) (snd c)))"
    by (rule Allow_bucket_ok) (use Cons.prems in auto)
  then show ?case
    using Cons.IH [of "snd (Allow rl (fst c) (snd c))"] Cons.prems
    by (simp add: Let_def Allow_limit Allow_rate)
qed

lemma newIPRateLimiter_limit: "limit (newIPRateLimiter maxReq window) = real_of_int maxReq"
  by (simp add: newIPRateLimiter_def Let_def)

lemma newIPRateLimiter_rate_nonneg:
  "0 \<le> maxReq \<Longrightarrow> 0 \<le> rate (newIPRateLimiter maxReq window)"
  by (simp add: newIPRateLimiter_def Let_def Seconds_def Second_def)

lemma newIPRateLimiter_bucket_ok: "bucket_ok (newIPRateLimiter maxReq window)"
  by (simp add: newIPRateLimiter_def Let_def bucket_ok_def)

text \<open>
  C2.  In a limiter built by \<^verbatim>\<open>newIPRateLimiter\<close> with a capacity of at least one (the
  program's only limiter has capacity 300), after every sequence of \<^verbatim>\<open>Allow\<close> calls,
  for any IPs and clock readings, every bucket of the map holds a token count between 0
  and the capacity.
\<close>

theorem Allow_tokens_within_capacity:
  assumes "1 \<le> maxReq"
    and "buckets (snd (Allow_seq (newIPRateLimiter maxReq window) calls)) ip = Some b"
  shows "0 \<le> tokens b \<and> tokens b \<le> real_of_int maxReq"
proof -
  let ?rl = "newIPRateLimiter maxReq window"
  have "bucket_ok (snd (Allow_seq ?rl calls))"
    by (rule Allow_seq_bucket_ok)
      (use assms(1) in \<open>simp_all add: newIPRateLimiter_limit newIPRateLimiter_rate_nonneg
        newIPRateLimiter_bucket_ok\<close>)
  then show ?thesis
    using assms(2) by (simp add: bucket_ok_def Allow_seq_limit newIPRateLimiter_limit)
qed

theorem Allow_tokens_within_capacity_witness:
  "(1::int) \<le> 300 \<and>
   buckets (snd (Allow_seq (newIPRateLimiter 300 (10 * Second))
       [(''10.0.0.1'', 0), (''10.0.0.2'', 5), (''10.0.0.1'', 20000000)])) ''10.0.0.1''
     = Some \<lparr> tokens = 2986 / 10, last_time = 20000000 \<rparr> \<and>
   0 \<le> tokens \<lparr> tokens = 2986 / 10, last_time = 20000000 \<rparr> \<and>
   tokens \<lparr> tokens = 2986 / 10, last_time = 20000000 \<rparr> \<le> real_of_int 300"
proof -
  have h1: "(1::int) \<le> 300"
    by simp
  have h2: "buckets (snd (Allow_seq (newIPRateLimiter 300 (10 * Second))
       [(''10.0.0.1'', 0), (''10.0.0.2'', 5), (''10.0.0.1'', 20000000)])) ''10.0.0.1''
     = Some \<lparr> tokens = 2986 / 10, last_time = 20000000 \<rparr>"
    by (simp add: Allow_def newIPRateLimiter_def refill_def Sub_def Seconds_def Second_def
        maxDuration_def minDuration_def Let_def)
  from Allow_tokens_within_capacity [OF h1 h2] h1 h2 show ?thesis
    by simp
qed

section \<open>Limiter: bursts under the default policy\<close>

lemma Sub_pos_iff: "0 < Sub t u \<longleftrightarrow> u < t"
  by (simp add: Sub_def Let_def maxDuration_def minDuration_def)

lemma Sub_le: "u < t \<Longrightarrow> Sub t u \<le> t - u"
  by (simp add: Sub_def Let_def maxDuration_def minDuration_def)

lemma Seconds_mono: "a \<le> b \<Longrightarrow> Seconds a \<le> Seconds b"
  by (simp add: Seconds_def divide_right_mono)

lemma Seconds_diff: "Seconds (a - b) = Seconds a - Seconds b"
  by (simp add: Seconds_def diff_divide_distrib)

lemma refill_last_time:
  "last_time (refill rl b now) = (if last_time b < now then now else last_time b)"
  by (simp add: refill_def Let_def Seconds_pos_iff Sub_pos_iff)

lemma refill_tokens_ge:
  assumes "0 \<le> rate rl" and "tokens b \<le> limit rl"
  shows "tokens b \<le> tokens (refill rl b now)"
proof (cases "0 < Seconds (Sub now (last_time b))")
  case True
  then have "0 \<le> Seconds (Sub now (last_time b)) * rate rl"
    using assms(1) by simp
  then show ?thesis
    using True assms(2) by (simp add: refill_def Let_def)
next
  case False
  then show ?thesis
    by (simp add: refill_def Let_def)
qed

lemma refill_tokens_le:
  assumes "0 \<le> rate rl"
  shows "tokens (refill rl b now)
           \<le> tokens b + rate rl * Seconds (last_time (refill rl b now) - last_time b)"
proof (cases "last_time b < now")
  case True
  then have pos: "0 < Seconds (Sub now (last_time b))"
    by (simp add: Seconds_pos_iff Sub_pos_iff)
  have "Seconds (Sub now (last_time b)) \<le> Seconds (now - last_time b)"
    by (rule Seconds_mono) (rule Sub_le [OF True])
  then have "Seconds (Sub now (last_time b)) * rate rl \<le> rate rl * Seconds (now - last_time b)"
    using assms by (simp add: mult.commute mult_left_mono)
  then show ?thesis
    using pos True by (simp add: refill_def Let_def)
next
  case False
  then have "\<not> 0 < Seconds (Sub now (last_time b))"
    by (simp add: Seconds_pos_iff Sub_pos_iff)
  then show ?thesis
    using False by (simp add: refill_def Let_def Seconds_def)
qed

lemma refill_tokens_le_limit:
  "tokens b \<le> limit rl \<Longrightarrow> tokens (refill rl b now) \<le> limit rl"
  by (simp add: refill_def Let_def)

lemma Allow_fresh:
  "buckets rl ip = None \<Longrightarrow>
   Allow rl ip now =
     (True, rl\<lparr> buckets := (buckets rl)(ip \<mapsto> \<lparr> tokens = limit rl - 1, last_time = now \<rparr>) \<rparr>)"
  by (simp add: Allow_def)

lemma Allow_admit:
  "buckets rl ip = Some b \<Longrightarrow> 1 \<le> tokens (refill rl b now) \<Longrightarrow>
   Allow rl ip now =
     (True, rl\<lparr> buckets := (buckets rl)(ip \<mapsto> (refill rl b now)\<lparr> tokens := tokens (refill rl b now) - 1 \<rparr>) \<rparr>)"
  by (simp add: Allow_def Let_def)

lemma Allow_reject:
  "buckets rl ip = Some b \<Longrightarrow> tokens (refill rl b now) < 1 \<Longrightarrow>
   Allow rl ip now = (False, rl\<lparr> buckets := (buckets rl)(ip \<mapsto> refill rl b now) \<rparr>)"
  by (simp add: Allow_def Let_def)

lemma Allow_seq_append:
  "Allow_seq rl (xs @ ys) =
     (fst (Allow_seq rl xs) @ fst (Allow_seq (snd (Allow_seq rl xs)) ys),
      snd (Allow_seq (snd (Allow_seq rl xs)) ys))"
  by (induction xs arbitrary: rl) (simp_all add: Let_def)

text \<open>A run of calls by one IP whose bucket holds at least as many tokens as there are calls.\<close>

lemma Allow_seq_admits:
  assumes "0 \<le> rate rl" and "buckets rl ip = Some b"
    and "real (length ts) \<le> tokens b" and "tokens b \<le> limit rl"
    and "\<forall>t\<in>set ts. t \<le> T" and "last_time b \<le> T"
  shows "fst (Allow_seq rl (map (Pair ip) ts)) = replicate (length ts) True \<and>
         (\<exists>b'. buckets (snd (Allow_seq rl (map (Pair ip) ts))) ip = Some b' \<and>
               tokens b' \<le> limit rl \<and>
               last_time b \<le> last_time b' \<and> last_time b' \<le> T \<and>
               tokens b' \<le> tokens b - real (length ts)
                             + rate rl * Seconds (last_time b' - last_time b))"
  using assms
proof (induction ts arbitrary: rl b)
  case Nil
  then show ?case
    by (simp add: Seconds_def)
next
  case (Cons t ts)
  let ?r = "refill rl b t"
  let ?b1 = "?r\<lparr> tokens := tokens ?r - 1 \<rparr>"
  let ?rl1 = "rl\<lparr> buckets := (buckets rl)(ip \<mapsto> ?b1) \<rparr>"
  have ge: "tokens b \<le> tokens ?r"
    by (rule refill_tokens_ge) (use Cons.prems in auto)
  have le: "tokens ?r \<le> tokens b + rate rl * Seconds (last_time ?r - last_time b)"
    by (rule refill_tokens_le) (use Cons.prems in auto)
  have lim: "tokens ?r \<le> limit rl"
    by (rule refill_tokens_le_limit) (use Cons.prems in auto)
  have lt: "last_time b \<le> last_time ?r" "last_time ?r \<le> T"
    using Cons.prems by (auto simp: refill_last_time)
  have one: "1 \<le> tokens ?r"
    using ge Cons.prems(3) by simp
  have step: "Allow rl ip t = (True, ?rl1)"
    by (rule Allow_admit) (use Cons.prems one in auto)
  have IH: "fst (Allow_seq ?rl1 (map (Pair ip) ts)) = replicate (length ts) True \<and>
         (\<exists>b'. buckets (snd (Allow_seq ?rl1 (map (Pair ip) ts))) ip = Some b' \<and>
               tokens b' \<le> limit ?rl1 \<and>
               last_time ?b1 \<le> last_time b' \<and> last_time b' \<le> T \<and>
               tokens b' \<le> tokens ?b1 - real (length ts)
                             + rate ?rl1 * Seconds (last_time b' - last_time ?b1))"
    by (rule Cons.IH) (use Cons.prems ge lim lt in auto)
  then obtain b' where b': "buckets (snd (Allow_seq ?rl1 (map (Pair ip) ts))) ip = Some b'"
      "tokens b' \<le> limit rl" "last_time ?r \<le> last_time b'" "last_time b' \<le> T"
      "tokens b' \<le> tokens ?r - 1 - real (length ts)
                             + rate rl * Seconds (last_time b' - last_time ?r)"
    by auto
  have "tokens b' \<le> tokens b - real (length (t # ts))
                             + rate rl * Seconds (last_time b' - last_time b)"
  proof -
    have "rate rl * Seconds (last_time ?r - last_time b) + rate rl * Seconds (last_time b' - last_time ?r)
          = rate rl * Seconds (last_time b' - last_time b)"
      by (simp add: Seconds_diff algebra_simps)
    then show ?thesis
      using b'(5) le by simp
  qed
  then show ?case
    using IH b' lt step by (simp add: Let_def)
qed

lemma buckets_upd_twice:
  "(rl\<lparr> buckets := (buckets rl)(ip \<mapsto> x) \<rparr>)
      \<lparr> buckets := (buckets (rl\<lparr> buckets := (buckets rl)(ip \<mapsto> x) \<rparr>))(ip \<mapsto> y) \<rparr>
     = rl\<lparr> buckets := (buckets rl)(ip \<mapsto> y) \<rparr>"
  by simp

lemma Allow_seq_same_instant:
  assumes "buckets rl ip = Some b" and "last_time b = t" and "real n \<le> tokens b"
  shows "Allow_seq rl (replicate n (ip, t)) =
           (replicate n True, rl\<lparr> buckets := (buckets rl)(ip \<mapsto> b\<lparr> tokens := tokens b - real n \<rparr>) \<rparr>)"
  using assms
proof (induction n arbitrary: rl b)
  case 0
  then show ?case
    by (simp add: fun_upd_idem)
next
  case (Suc n)
  have r: "refill rl b t = b"
    using Suc.prems(2)
    by (simp add: refill_def Let_def Seconds_def Sub_def maxDuration_def minDuration_def)
  let ?b1 = "b\<lparr> tokens := tokens b - 1 \<rparr>"
  let ?rl1 = "rl\<lparr> buckets := (buckets rl)(ip \<mapsto> ?b1) \<rparr>"
  have step: "Allow rl ip t = (True, ?rl1)"
    using Allow_admit [of rl ip b t] Suc.prems r by simp
  have b1: "?b1\<lparr> tokens := tokens ?b1 - real n \<rparr> = b\<lparr> tokens := tokens b - real (Suc n) \<rparr>"
    by (simp add: diff_diff_eq)
  have "Allow_seq ?rl1 (replicate n (ip, t)) =
           (replicate n True,
            ?rl1\<lparr> buckets := (buckets ?rl1)(ip \<mapsto> ?b1\<lparr> tokens := tokens ?b1 - real n \<rparr>) \<rparr>)"
    by (rule Suc.IH) (use Suc.prems in auto)
  then have IH1: "Allow_seq ?rl1 (replicate n (ip, t)) =
           (replicate n True, rl\<lparr> buckets := (buckets rl)(ip \<mapsto> b\<lparr> tokens := tokens b - real (Suc n) \<rparr>) \<rparr>)"
    by (simp only: b1 buckets_upd_twice)
  show ?case
    by (simp only: replicate_Suc Allow_seq.simps Let_def fst_conv snd_conv step IH1)
qed


lemma defaultIPLimiter_limit: "limit defaultIPLimiter = 300"
  by (simp add: defaultIPLimiter_def newIPRateLimiter_def Let_def)

lemma defaultIPLimiter_rate: "rate defaultIPLimiter = 30"
  by (simp add: defaultIPLimiter_def newIPRateLimiter_def Let_def Seconds_def Second_def)

lemma defaultIPLimiter_buckets: "buckets defaultIPLimiter ip = None"
  by (simp add: defaultIPLimiter_def newIPRateLimiter_def Let_def)

lemma Allow_seq_fresh_admits:
  assumes "0 \<le> rate rl" and "buckets rl ip = None"
    and "real (length ts) \<le> limit rl - 1" and "\<forall>t\<in>set (t0 # ts). t \<le> T"
  shows "fst (Allow_seq rl (map (Pair ip) (t0 # ts))) = replicate (Suc (length ts)) True \<and>
         (\<exists>b'. buckets (snd (Allow_seq rl (map (Pair ip) (t0 # ts)))) ip = Some b' \<and>
               t0 \<le> last_time b' \<and> last_time b' \<le> T \<and>
               tokens b' \<le> limit rl - 1 - real (length ts)
                             + rate rl * Seconds (last_time b' - t0))"
proof -
  let ?b0 = "\<lparr> tokens = limit rl - 1, last_time = t0 \<rparr>"
  let ?rl0 = "rl\<lparr> buckets := (buckets rl)(ip \<mapsto> ?b0) \<rparr>"
  have first: "Allow rl ip t0 = (True, ?rl0)"
    by (rule Allow_fresh) (rule assms(2))
  have "fst (Allow_seq ?rl0 (map (Pair ip) ts)) = replicate (length ts) True \<and>
         (\<exists>b'. buckets (snd (Allow_seq ?rl0 (map (Pair ip) ts))) ip = Some b' \<and>
               tokens b' \<le> limit ?rl0 \<and>
               last_time ?b0 \<le> last_time b' \<and> last_time b' \<le> T \<and>
               tokens b' \<le> tokens ?b0 - real (length ts)
                             + rate ?rl0 * Seconds (last_time b' - last_time ?b0))"
    by (rule Allow_seq_admits) (use assms in auto)
  then show ?thesis
    using first by (auto simp: Let_def)
qed

text \<open>
  What the limiter does ensure for a burst, under the default policy, for an IP that has no
  bucket yet: up to 300 calls are all admitted, whatever their clock readings; and the
  301st call is rejected when, at every call, less than one token's worth of time (a
  thirtieth of a second) has passed since the first call.
\<close>

theorem Allow_default_burst:
  assumes "limit rl = limit defaultIPLimiter" and "rate rl = rate defaultIPLimiter"
    and "buckets rl ip = None"
  shows "(length ts \<le> 300 \<longrightarrow>
            fst (Allow_seq rl (map (Pair ip) ts)) = replicate (length ts) True) \<and>
         (length ts = 301 \<and> (\<forall>t\<in>set ts. rate rl * Seconds (t - hd ts) < 1) \<longrightarrow>
            fst (Allow_seq rl (map (Pair ip) ts)) = replicate 300 True @ [False])"
proof (intro conjI impI)
  have lim: "limit rl = 300" and rt: "rate rl = 30"
    using assms by (simp_all add: defaultIPLimiter_limit defaultIPLimiter_rate)
  {
    assume len: "length ts \<le> 300"
    show "fst (Allow_seq rl (map (Pair ip) ts)) = replicate (length ts) True"
    proof (cases ts)
      case Nil
      then show ?thesis by simp
    next
      case (Cons t0 ts')
      have "\<forall>t\<in>set (t0 # ts'). t \<le> Max (set (t0 # ts'))"
        by simp
      from Allow_seq_fresh_admits [OF _ assms(3) _ this]
      show ?thesis
        using len Cons lim rt by simp
    qed
  }
  {
    assume "length ts = 301 \<and> (\<forall>t\<in>set ts. rate rl * Seconds (t - hd ts) < 1)"
    then have len: "length ts = 301" and near: "\<forall>t\<in>set ts. rate rl * Seconds (t - hd ts) < 1"
      by simp_all
    from len obtain t0 ts' where ts: "ts = t0 # ts'"
      by (cases ts) auto
    with len have "ts' \<noteq> []"
      by auto
    then obtain mid t1 where ts': "ts' = mid @ [t1]"
      by (cases ts' rule: rev_cases) auto
    have lmid: "length mid = 299"
      using len ts ts' by simp
    define T where "T = Max (set ts)"
    have T_in: "T \<in> set ts"
      unfolding T_def by (rule Max_in) (use ts in auto)
    have T_ub: "\<forall>t\<in>set ts. t \<le> T"
      unfolding T_def by simp
    have T_near: "30 * Seconds (T - t0) < 1"
      using near T_in ts rt by auto
    define rl1 where "rl1 = snd (Allow_seq rl (map (Pair ip) (t0 # mid)))"
    have "\<forall>t\<in>set (t0 # mid). t \<le> T"
      using T_ub ts ts' by simp
    from Allow_seq_fresh_admits [OF _ assms(3) _ this]
    have adm: "fst (Allow_seq rl (map (Pair ip) (t0 # mid))) = replicate 300 True"
      and "\<exists>b'. buckets rl1 ip = Some b' \<and> t0 \<le> last_time b' \<and> last_time b' \<le> T \<and>
               tokens b' \<le> 30 * Seconds (last_time b' - t0)"
      unfolding rl1_def using lmid lim rt by simp_all
    then obtain b' where b': "buckets rl1 ip = Some b'" "t0 \<le> last_time b'" "last_time b' \<le> T"
        "tokens b' \<le> 30 * Seconds (last_time b' - t0)"
      by blast
    have rt1: "rate rl1 = 30"
      unfolding rl1_def using rt by (simp only: Allow_seq_rate)
    let ?r = "refill rl1 b' t1"
    have "t1 \<le> T"
      using T_ub ts ts' by simp
    then have lr: "last_time ?r \<le> T"
      using b'(3) by (simp add: refill_last_time)
    have "tokens ?r \<le> tokens b' + rate rl1 * Seconds (last_time ?r - last_time b')"
      by (rule refill_tokens_le) (simp add: rt1)
    then have "tokens ?r \<le> 30 * Seconds (last_time b' - t0) + 30 * Seconds (last_time ?r - last_time b')"
      using b'(4) rt1 by simp
    also have "\<dots> = 30 * Seconds (last_time ?r - t0)"
      by (simp add: Seconds_diff)
    also have "\<dots> \<le> 30 * Seconds (T - t0)"
      using lr by (simp add: Seconds_mono)
    finally have "tokens ?r < 1"
      using T_near by simp
    with b'(1) have rej: "Allow rl1 ip t1 = (False, rl1\<lparr> buckets := (buckets rl1)(ip \<mapsto> ?r) \<rparr>)"
      by (rule Allow_reject)
    have "map (Pair ip) ts = map (Pair ip) (t0 # mid) @ [(ip, t1)]"
      using ts ts' by simp
    then have "fst (Allow_seq rl (map (Pair ip) ts)) =
                 fst (Allow_seq rl (map (Pair ip) (t0 # mid))) @ fst (Allow_seq rl1 [(ip, t1)])"
      unfolding rl1_def by (simp only: Allow_seq_append fst_conv)
    then show "fst (Allow_seq rl (map (Pair ip) ts)) = replicate 300 True @ [False]"
      using adm rej by (simp add: Let_def)
  }
qed


lemma default_after_300:
  "Allow_seq defaultIPLimiter (replicate 300 (ip, t)) =
     (replicate 300 True,
      defaultIPLimiter\<lparr> buckets := (buckets defaultIPLimiter)(ip \<mapsto> \<lparr> tokens = 0, last_time = t \<rparr>) \<rparr>)"
proof -
  let ?b0 = "\<lparr> tokens = 299, last_time = t \<rparr>"
  let ?rl0 = "defaultIPLimiter\<lparr> buckets := (buckets defaultIPLimiter)(ip \<mapsto> ?b0) \<rparr>"
  have first: "Allow defaultIPLimiter ip t = (True, ?rl0)"
    using Allow_fresh [OF defaultIPLimiter_buckets, of ip t] by (simp add: defaultIPLimiter_limit)
  have "Allow_seq ?rl0 (replicate 299 (ip, t)) =
          (replicate 299 True, ?rl0\<lparr> buckets := (buckets ?rl0)(ip \<mapsto> ?b0\<lparr> tokens := tokens ?b0 - real 299 \<rparr>) \<rparr>)"
    by (rule Allow_seq_same_instant) simp_all
  then have rest: "Allow_seq ?rl0 (replicate 299 (ip, t)) =
          (replicate 299 True,
           defaultIPLimiter\<lparr> buckets := (buckets defaultIPLimiter)(ip \<mapsto> \<lparr> tokens = 0, last_time = t \<rparr>) \<rparr>)"
    by simp
  have n: "(300::nat) = Suc 299"
    by simp
  show ?thesis
    unfolding n by (simp only: replicate_Suc Allow_seq.simps Let_def fst_conv snd_conv first rest)
qed

text \<open>
  C1.  Under the default policy, 300 calls per IP in a window of ten seconds, the 301st
  call of an IP within one window is to be rejected; the comments on the limiter and on
  \<^verbatim>\<open>defaultIPLimiter\<close> state that bound.  The code admits it: after 300 calls at one
  instant, a call one second later is admitted, because thirty tokens have been refilled
  by then; and 300 calls at time 0 followed by 299 calls one nanosecond before the tenth
  second, 599 calls in one window, are all admitted.
\<close>

theorem Allow_default_exceeds_window_quota:
  "list_all (\<lambda>t. 0 \<le> t \<and> t < 10 * Second) (replicate 300 0 @ [Second]) \<and>
   fst (Allow_seq defaultIPLimiter (map (Pair ''203.0.113.7'') (replicate 300 0 @ [Second])))
     = replicate 300 True @ [True] \<and>
   list_all (\<lambda>t. 0 \<le> t \<and> t < 10 * Second) (replicate 300 0 @ replicate 299 9999999999) \<and>
   fst (Allow_seq defaultIPLimiter
          (map (Pair ''203.0.113.7'') (replicate 300 0 @ replicate 299 9999999999)))
     = replicate 599 True"
proof -
  let ?ip = "''203.0.113.7''"
  let ?rl = "defaultIPLimiter\<lparr> buckets := (buckets defaultIPLimiter)(?ip \<mapsto> \<lparr> tokens = 0, last_time = 0 \<rparr>) \<rparr>"
  have "fst (Allow ?rl ?ip Second) = True"
    by (simp add: Allow_def refill_def Let_def Sub_def Seconds_def Second_def maxDuration_def
        minDuration_def defaultIPLimiter_rate defaultIPLimiter_limit)
  then have "fst (Allow_seq defaultIPLimiter (replicate 300 (?ip, 0) @ [(?ip, Second)]))
               = replicate 300 True @ [True]"
    by (simp only: Allow_seq_append default_after_300 fst_conv snd_conv Allow_seq.simps Let_def)
  then have one: "fst (Allow_seq defaultIPLimiter (map (Pair ?ip) (replicate 300 0 @ [Second])))
     = replicate 300 True @ [True]"
    by (simp add: map_replicate)
  have w1: "list_all (\<lambda>t. 0 \<le> t \<and> t < 10 * Second) (replicate 300 0 @ [Second])"
    by (simp add: Second_def list_all_iff)
  let ?T = "9999999999 :: int"
  let ?b1 = "\<lparr> tokens = 29899999997 / 100000000, last_time = ?T \<rparr>"
  let ?rl1 = "?rl\<lparr> buckets := (buckets ?rl)(?ip \<mapsto> ?b1) \<rparr>"
  have first: "Allow ?rl ?ip ?T = (True, ?rl1)"
    by (simp add: Allow_def refill_def Let_def Sub_def Seconds_def maxDuration_def
        minDuration_def defaultIPLimiter_rate defaultIPLimiter_limit)
  have "Allow_seq ?rl1 (replicate 298 (?ip, ?T)) =
          (replicate 298 True,
           ?rl1\<lparr> buckets := (buckets ?rl1)(?ip \<mapsto> ?b1\<lparr> tokens := tokens ?b1 - real 298 \<rparr>) \<rparr>)"
    by (rule Allow_seq_same_instant) simp_all
  then have rest: "fst (Allow_seq ?rl1 (replicate 298 (?ip, ?T))) = replicate 298 True"
    by (simp only: fst_conv)
  have n: "replicate 299 (?ip, ?T) = (?ip, ?T) # replicate 298 (?ip, ?T)"
  proof -
    have "(299::nat) = Suc 298"
      by simp
    then show ?thesis
      by (simp only: replicate_Suc)
  qed
  have r: "replicate 599 True = replicate 300 True @ True # replicate 298 True"
  proof -
    have "(599::nat) = 300 + Suc 298"
      by simp
    then show ?thesis
      by (simp only: replicate_add replicate_Suc)
  qed
  have "fst (Allow_seq defaultIPLimiter (replicate 300 (?ip, 0) @ replicate 299 (?ip, ?T)))
          = replicate 599 True"
    unfolding n r
    by (simp only: Allow_seq.simps Allow_seq_append Let_def fst_conv snd_conv default_after_300
        first rest)
  then have two: "fst (Allow_seq defaultIPLimiter
          (map (Pair ?ip) (replicate 300 0 @ replicate 299 ?T))) = replicate 599 True"
    by (simp only: map_append map_replicate)
  have w2: "list_all (\<lambda>t. 0 \<le> t \<and> t < 10 * Second) (replicate 300 0 @ replicate 299 ?T)"
    by (simp add: Second_def list_all_iff)
  from w1 one w2 two show ?thesis
    by (intro conjI)
qed

theorem Allow_default_burst_witness:
  "fst (Allow_seq defaultIPLimiter (map (Pair ''203.0.113.7'') [0, 4 * Second, 9 * Second]))
     = [True, True, True] \<and>
   fst (Allow_seq defaultIPLimiter (map (Pair ''203.0.113.7'') (replicate 300 0 @ [33333333])))
     = replicate 300 True @ [False]"
proof -
  have a: "length [0, 4 * Second, 9 * Second] \<le> 300"
    by simp
  have b: "length (replicate 300 (0::int) @ [33333333]) = 301 \<and>
           (\<forall>t\<in>set (replicate 300 (0::int) @ [33333333]).
               rate defaultIPLimiter * Seconds (t - hd (replicate 300 0 @ [33333333])) < 1)"
    by (simp add: defaultIPLimiter_rate Seconds_def hd_append)
  from Allow_default_burst [OF refl refl defaultIPLimiter_buckets, of "[0, 4 * Second, 9 * Second]" "''203.0.113.7''"] a
  have 1: "fst (Allow_seq defaultIPLimiter (map (Pair ''203.0.113.7'') [0, 4 * Second, 9 * Second]))
     = replicate (length [0, 4 * Second, 9 * Second]) True"
    by blast
  from Allow_default_burst [OF refl refl defaultIPLimiter_buckets, of "replicate 300 0 @ [33333333]" "''203.0.113.7''"] b
  have 2: "fst (Allow_seq defaultIPLimiter (map (Pair ''203.0.113.7'') (replicate 300 0 @ [33333333])))
     = replicate 300 True @ [False]"
    by blast
  from 1 2 show ?thesis
    by (simp add: numeral_3_eq_3)
qed

section \<open>Limiter: independence of the quotas of distinct IPs\<close>

lemma Allow_other_bucket:
  "ip' \<noteq> ip \<Longrightarrow> buckets (snd (Allow rl ip now)) ip' = buckets rl ip'"
  by (simp add: Allow_def Let_def split: option.splits)

lemma refill_cong:
  "limit rl = limit rl' \<Longrightarrow> rate rl = rate rl' \<Longrightarrow> refill rl b now = refill rl' b now"
  by (simp add: refill_def Let_def)

lemma Allow_same_bucket:
  assumes "limit rl = limit rl'" and "rate rl = rate rl'" and "buckets rl ip = buckets rl' ip"
  shows "fst (Allow rl ip now) = fst (Allow rl' ip now) \<and>
         buckets (snd (Allow rl ip now)) ip = buckets (snd (Allow rl' ip now)) ip"
  using assms refill_cong [OF assms(1,2)]
  by (simp add: Allow_def Let_def split: option.splits)

lemma Allow_seq_without_other:
  assumes "ip1 \<noteq> ip2" and "limit rl = limit rl'" and "rate rl = rate rl'"
    and "buckets rl ip2 = buckets rl' ip2"
  shows "verdicts_for ip2 calls (fst (Allow_seq rl calls)) =
           verdicts_for ip2 (filter (\<lambda>c. fst c \<noteq> ip1) calls)
             (fst (Allow_seq rl' (filter (\<lambda>c. fst c \<noteq> ip1) calls))) \<and>
         buckets (snd (Allow_seq rl calls)) ip2 =
           buckets (snd (Allow_seq rl' (filter (\<lambda>c. fst c \<noteq> ip1) calls))) ip2"
  using assms(2-)
proof (induction calls arbitrary: rl rl')
  case Nil
  then show ?case
    by (simp add: verdicts_for_def)
next
  case (Cons c calls)
  let ?s = "snd (Allow rl (fst c) (snd c))"
  show ?case
  proof (cases "fst c = ip1")
    case True
    then have "buckets ?s ip2 = buckets rl' ip2"
      using Cons.prems(3) assms(1) by (simp add: Allow_other_bucket)
    then show ?thesis
      using Cons.IH [of ?s rl'] Cons.prems True assms(1)
      by (simp add: Let_def Allow_limit Allow_rate verdicts_for_def)
  next
    case False
    let ?s' = "snd (Allow rl' (fst c) (snd c))"
    have same: "fst c = ip2 \<Longrightarrow> fst (Allow rl (fst c) (snd c)) = fst (Allow rl' (fst c) (snd c))"
      using Allow_same_bucket [of rl rl' ip2 "snd c"] Cons.prems by simp
    have "buckets ?s ip2 = buckets ?s' ip2"
    proof (cases "fst c = ip2")
      case True
      then show ?thesis
        using Allow_same_bucket [of rl rl' ip2 "snd c"] Cons.prems by simp
    next
      case False
      then show ?thesis
        using Cons.prems(3) by (simp add: Allow_other_bucket)
    qed
    then show ?thesis
      using Cons.IH [of ?s ?s'] Cons.prems False same
      by (auto simp: Let_def Allow_limit Allow_rate verdicts_for_def)
  qed
qed

text \<open>
  C8.  For distinct IPs \<open>ip1\<close> and \<open>ip2\<close>: a call for \<open>ip1\<close> leaves the bucket of \<open>ip2\<close>
  as it was, and in every sequence of calls the verdicts of the calls for \<open>ip2\<close> and the
  final bucket of \<open>ip2\<close> are those of the same sequence with the calls for \<open>ip1\<close> removed.
\<close>

theorem Allow_quotas_independent:
  assumes "ip1 \<noteq> ip2"
  shows "buckets (snd (Allow rl ip1 now)) ip2 = buckets rl ip2 \<and>
         verdicts_for ip2 calls (fst (Allow_seq rl calls)) =
           verdicts_for ip2 (filter (\<lambda>c. fst c \<noteq> ip1) calls)
             (fst (Allow_seq rl (filter (\<lambda>c. fst c \<noteq> ip1) calls))) \<and>
         buckets (snd (Allow_seq rl calls)) ip2 =
           buckets (snd (Allow_seq rl (filter (\<lambda>c. fst c \<noteq> ip1) calls))) ip2"
  using Allow_other_bucket [of ip2 ip1 rl now]
    Allow_seq_without_other [OF assms refl refl refl, where rl = rl and calls = calls] assms
  by simp

theorem Allow_quotas_independent_witness:
  "''10.0.0.1'' \<noteq> ''10.0.0.2'' \<and>
   (buckets (snd (Allow defaultIPLimiter ''10.0.0.1'' 7)) ''10.0.0.2''
      = buckets defaultIPLimiter ''10.0.0.2'' \<and>
    verdicts_for ''10.0.0.2'' [(''10.0.0.1'', 0), (''10.0.0.2'', 1), (''10.0.0.1'', 2), (''10.0.0.2'', 3)]
        (fst (Allow_seq defaultIPLimiter
           [(''10.0.0.1'', 0), (''10.0.0.2'', 1), (''10.0.0.1'', 2), (''10.0.0.2'', 3)])) =
      verdicts_for ''10.0.0.2''
        (filter (\<lambda>c. fst c \<noteq> ''10.0.0.1'')
           [(''10.0.0.1'', 0), (''10.0.0.2'', 1), (''10.0.0.1'', 2), (''10.0.0.2'', 3)])
        (fst (Allow_seq defaultIPLimiter
           (filter (\<lambda>c. fst c \<noteq> ''10.0.0.1'')
              [(''10.0.0.1'', 0), (''10.0.0.2'', 1), (''10.0.0.1'', 2), (''10.0.0.2'', 3)]))) \<and>
    buckets (snd (Allow_seq defaultIPLimiter
        [(''10.0.0.1'', 0), (''10.0.0.2'', 1), (''10.0.0.1'', 2), (''10.0.0.2'', 3)])) ''10.0.0.2'' =
      buckets (snd (Allow_seq defaultIPLimiter
        (filter (\<lambda>c. fst c \<noteq> ''10.0.0.1'')
           [(''10.0.0.1'', 0), (''10.0.0.2'', 1), (''10.0.0.1'', 2), (''10.0.0.2'', 3)]))) ''10.0.0.2'')"
proof -
  have h: "''10.0.0.1'' \<noteq> ''10.0.0.2''"
    by simp
  show ?thesis
    by (rule conjI [OF h Allow_quotas_independent [OF h]])
qed

section \<open>The forwarded request: headers\<close>

lemma canon_keys:
  "CanonicalMIMEHeaderKey ''X-Real-IP'' = ''X-Real-Ip''"
  "CanonicalMIMEHeaderKey ''X-Forwarded-For'' = ''X-Forwarded-For''"
  "CanonicalMIMEHeaderKey ''X-Forwarded-Host'' = ''X-Forwarded-Host''"
  "CanonicalMIMEHeaderKey ''X-Forwarded-Proto'' = ''X-Forwarded-Proto''"
  "CanonicalMIMEHeaderKey ''Forwarded'' = ''Forwarded''"
  "CanonicalMIMEHeaderKey ''Via'' = ''Via''"
  "CanonicalMIMEHeaderKey ''Proxy-Connection'' = ''Proxy-Connection''"
  "CanonicalMIMEHeaderKey ''User-Agent'' = ''User-Agent''"
  "CanonicalMIMEHeaderKey ''Accept-Language'' = ''Accept-Language''"
  "CanonicalMIMEHeaderKey ''Accept-Encoding'' = ''Accept-Encoding''"
  "CanonicalMIMEHeaderKey ''Connection'' = ''Connection''"
  "CanonicalMIMEHeaderKey ''Keep-Alive'' = ''Keep-Alive''"
  "CanonicalMIMEHeaderKey ''Proxy-Authenticate'' = ''Proxy-Authenticate''"
  "CanonicalMIMEHeaderKey ''Proxy-Authorization'' = ''Proxy-Authorization''"
  "CanonicalMIMEHeaderKey ''Te'' = ''Te''"
  "CanonicalMIMEHeaderKey ''Trailer'' = ''Trailer''"
  "CanonicalMIMEHeaderKey ''Transfer-Encoding'' = ''Transfer-Encoding''"
  "CanonicalMIMEHeaderKey ''Upgrade'' = ''Upgrade''"
  by code_simp+

lemma Del_apply: "Del h key k = (if k = CanonicalMIMEHeaderKey key then None else h k)"
  by (simp add: Del_def)

lemma Set_apply: "Set h key v k = (if k = CanonicalMIMEHeaderKey key then Some [v] else h k)"
  by (simp add: Set_def)

lemma fold_Del_apply:
  "fold (\<lambda>f h'. Del h' f) ks h k =
     (if k \<in> set (map CanonicalMIMEHeaderKey ks) then None else h k)"
  by (induction ks arbitrary: h) (auto simp: Del_apply)

lemma Director_Accept_Language:
  "Header (Director r) ''Accept-Language'' =
     (if Get (Header r) ''Accept-Language'' = [] then Some [defaultAcceptLanguage]
      else Header r ''Accept-Language'')"
  by (simp add: Director_def Let_def originalDirector_def strippedHeaders_def Del_apply
      Set_apply Get_def canon_keys)

lemma Director_Accept_Encoding:
  "Header (Director r) ''Accept-Encoding'' =
     (if Get (Header r) ''Accept-Encoding'' = [] then Some [defaultAcceptEncoding]
      else Header r ''Accept-Encoding'')"
  by (simp add: Director_def Let_def originalDirector_def strippedHeaders_def Del_apply
      Set_apply Get_def canon_keys)

lemma Director_Connection:
  "Header (Director r) ''Connection'' = Header r ''Connection''"
  by (simp add: Director_def Let_def originalDirector_def strippedHeaders_def Del_apply
      Set_apply Get_def canon_keys)

lemma Director_stripped:
  "k \<in> set strippedHeaders \<Longrightarrow> Header (Director r) (CanonicalMIMEHeaderKey k) = None"
  by (auto simp: Director_def Let_def originalDirector_def strippedHeaders_def Del_apply
      Set_apply Get_def canon_keys)

lemma removeHopByHopHeaders_apply:
  "removeHopByHopHeaders h k =
     (if k \<in> set (map CanonicalMIMEHeaderKey hopHeaders) \<or>
         k \<in> set (map CanonicalMIMEHeaderKey (connectionTokens h)) then None
      else h k)"
  by (simp add: removeHopByHopHeaders_def fold_Del_apply)

lemma addForwardedFor_other:
  "k \<noteq> ''X-Forwarded-For'' \<Longrightarrow> addForwardedFor ra h k = h k"
  by (simp add: addForwardedFor_def Set_apply canon_keys split: sum.splits option.splits list.splits)

lemma connectionTokens_Director:
  "connectionTokens (Header (Director r)) = connectionTokens (Header r)"
  by (simp add: connectionTokens_def values_of_def Director_Connection)

lemma outreq_header_kept:
  assumes "outreq r = Some out"
    and "k \<notin> set [''Te'', ''Connection'', ''Upgrade'', ''X-Forwarded-For'', ''User-Agent'']"
  shows "Header out k = removeHopByHopHeaders (Header (Director r)) k"
  using assms
  by (auto simp: outreq_def Let_def Set_apply canon_keys addForwardedFor_other
      split: if_splits)

text \<open>
  Whatever the inbound request carries, the forwarded request has none of the stripped
  headers other than \<^verbatim>\<open>X-Forwarded-For\<close>.
\<close>

lemma outreq_strips_other_six:
  assumes "outreq r = Some out"
    and "k \<in> set strippedHeaders" and "k \<noteq> ''X-Forwarded-For''"
  shows "Header out (CanonicalMIMEHeaderKey k) = None"
proof -
  have "CanonicalMIMEHeaderKey k \<notin> set [''Te'', ''Connection'', ''Upgrade'', ''X-Forwarded-For'', ''User-Agent'']"
    using assms(2,3) by (auto simp: strippedHeaders_def canon_keys)
  from outreq_header_kept [OF assms(1) this]
  show ?thesis
    using Director_stripped [OF assms(2), of r]
    by (simp add: removeHopByHopHeaders_apply)
qed

text \<open>
  C5 (amended).  For every inbound request that the proxy forwards, and for each of
  \<^verbatim>\<open>Accept-Language\<close> and \<^verbatim>\<open>Accept-Encoding\<close> that the inbound \<^verbatim>\<open>Connection\<close>
  header does not name as hop-by-hop: when the inbound header is missing or its first value
  is empty, the forwarded request carries exactly the default list; otherwise it carries
  the inbound values of that header unchanged.
\<close>

theorem outreq_language_encoding:
  assumes "outreq r = Some out"
  shows "(\<not> hopListed (Header r) ''Accept-Language'' \<longrightarrow>
            Header out ''Accept-Language'' =
              (if Get (Header r) ''Accept-Language'' = [] then Some [defaultAcceptLanguage]
               else Header r ''Accept-Language'')) \<and>
         (\<not> hopListed (Header r) ''Accept-Encoding'' \<longrightarrow>
            Header out ''Accept-Encoding'' =
              (if Get (Header r) ''Accept-Encoding'' = [] then Some [defaultAcceptEncoding]
               else Header r ''Accept-Encoding''))"
proof -
  have "Header out ''Accept-Language'' = removeHopByHopHeaders (Header (Director r)) ''Accept-Language''"
    by (rule outreq_header_kept [OF assms]) simp
  moreover
  have "Header out ''Accept-Encoding'' = removeHopByHopHeaders (Header (Director r)) ''Accept-Encoding''"
    by (rule outreq_header_kept [OF assms]) simp
  ultimately show ?thesis
    by (simp add: removeHopByHopHeaders_apply connectionTokens_Director hopListed_def
        hopHeaders_def canon_keys Director_Accept_Language Director_Accept_Encoding)
qed


theorem outreq_language_encoding_witness:
  "\<not> Option.is_none (outreq (sample_request [''Accept-Language'' \<mapsto> [''fr-FR'']])) \<and>
   \<not> hopListed (Header (sample_request [''Accept-Language'' \<mapsto> [''fr-FR'']])) ''Accept-Language'' \<and>
   \<not> hopListed (Header (sample_request [''Accept-Language'' \<mapsto> [''fr-FR'']])) ''Accept-Encoding'' \<and>
   Header (the (outreq (sample_request [''Accept-Language'' \<mapsto> [''fr-FR'']]))) ''Accept-Language''
     = Some [''fr-FR''] \<and>
   Header (the (outreq (sample_request [''Accept-Language'' \<mapsto> [''fr-FR'']]))) ''Accept-Encoding''
     = Some [defaultAcceptEncoding]"
proof -
  let ?r = "sample_request [''Accept-Language'' \<mapsto> [''fr-FR'']]"
  have some: "\<not> Option.is_none (outreq ?r)"
    by code_simp
  then obtain out where out: "outreq ?r = Some out"
    by (auto simp: Option.is_none_def)
  have l: "\<not> hopListed (Header ?r) ''Accept-Language''"
    by code_simp
  have e: "\<not> hopListed (Header ?r) ''Accept-Encoding''"
    by code_simp
  have gl: "Get (Header ?r) ''Accept-Language'' \<noteq> []"
    by code_simp
  have ge: "Get (Header ?r) ''Accept-Encoding'' = []"
    by code_simp
  have hl: "Header ?r ''Accept-Language'' = Some [''fr-FR'']"
    by (simp add: sample_request_def)
  from outreq_language_encoding [OF out] l e gl ge hl
  have "Header out ''Accept-Language'' = Some [''fr-FR''] \<and>
        Header out ''Accept-Encoding'' = Some [defaultAcceptEncoding]"
    by simp
  with some l e out show ?thesis
    by simp
qed

text \<open>
  C5 as stated fails, in two ways.  An inbound \<^verbatim>\<open>Accept-Language\<close> header whose value
  is empty is forwarded with the default list in its place.  And an inbound
  \<^verbatim>\<open>Accept-Language: fr-FR\<close> that the inbound \<^verbatim>\<open>Connection\<close> header names is not
  forwarded at all: the proxy removes it as hop-by-hop after the director has run.
\<close>

theorem outreq_language_not_kept:
  "Header (sample_request [''Accept-Language'' \<mapsto> [[]]]) ''Accept-Language'' = Some [[]] \<and>
   map_option (\<lambda>out. Header out ''Accept-Language'')
       (outreq (sample_request [''Accept-Language'' \<mapsto> [[]]]))
     = Some (Some [''zh-CN,zh;q=0.9,en;q=0.8'']) \<and>
   Header (sample_request [''Connection'' \<mapsto> [''Accept-Language''], ''Accept-Language'' \<mapsto> [''fr-FR'']])
       ''Accept-Language'' = Some [''fr-FR''] \<and>
   map_option (\<lambda>out. Header out ''Accept-Language'')
       (outreq (sample_request
          [''Connection'' \<mapsto> [''Accept-Language''], ''Accept-Language'' \<mapsto> [''fr-FR'']]))
     = Some None"
  by code_simp

text \<open>
  C3.  The forwarded request is to carry none of the stripped headers.  The director does
  delete \<^verbatim>\<open>X-Forwarded-For\<close>; the reverse proxy then finds the key missing and sets it
  to the client's address, so the request forwarded for a client at 203.0.113.7 carries
  \<^verbatim>\<open>X-Forwarded-For: 203.0.113.7\<close>.
\<close>

theorem outreq_carries_forwarded_for:
  "Header (Director (sample_request
       [''X-Forwarded-For'' \<mapsto> [''198.51.100.9''], ''Accept'' \<mapsto> [''*/*'']])) ''X-Forwarded-For''
     = None \<and>
   map_option (\<lambda>out. Header out ''X-Forwarded-For'')
       (outreq (sample_request [''X-Forwarded-For'' \<mapsto> [''198.51.100.9''], ''Accept'' \<mapsto> [''*/*'']]))
     = Some (Some [''203.0.113.7''])"
  by code_simp

lemma Split_comma_nonempty: "Split_comma s \<noteq> []"
  by (induction s) (auto split: list.splits)

lemma hd_Split_comma: "hd (Split_comma s) = takeWhile (\<lambda>c. c \<noteq> CHR '','') s"
proof (induction s)
  case Nil
  then show ?case by simp
next
  case (Cons c cs)
  then show ?case
    using Split_comma_nonempty [of cs] by (cases "Split_comma cs") auto
qed

lemma IndexByte_absent: "c \<notin> set s \<Longrightarrow> IndexByte s c = - 1"
  by (induction s) (auto simp: Let_def)

lemma SplitHostPort_no_colon:
  "CHR '':'' \<notin> set hostport \<Longrightarrow> SplitHostPort hostport = Inl missingPort"
  by (simp add: SplitHostPort_def LastIndexByte_def IndexByte_absent Let_def)

lemma IndexByte_found:
  "0 \<le> IndexByte s c \<Longrightarrow> nat (IndexByte s c) < length s \<and> s ! nat (IndexByte s c) = c"
proof (induction s)
  case Nil
  then show ?case by simp
next
  case (Cons x xs)
  show ?case
  proof (cases "x = c")
    case True
    then show ?thesis by simp
  next
    case False
    with Cons.prems have nn: "0 \<le> IndexByte xs c"
      by (simp add: Let_def split: if_splits)
    with False have "IndexByte (x # xs) c = IndexByte xs c + 1"
      by (simp add: Let_def)
    moreover have "nat (IndexByte xs c + 1) = Suc (nat (IndexByte xs c))"
      using nn by simp
    ultimately show ?thesis
      using Cons.IH [OF nn] by simp
  qed
qed

lemma IndexByte_lower: "- 1 \<le> IndexByte s c"
  by (induction s) (auto simp: Let_def)

lemma LastIndexByte_found:
  assumes "0 \<le> LastIndexByte s c"
  shows "nat (LastIndexByte s c) < length s \<and> s ! nat (LastIndexByte s c) = c"
proof -
  let ?j = "IndexByte (rev s) c"
  from assms have j: "0 \<le> ?j"
    by (simp add: LastIndexByte_def Let_def split: if_splits)
  from IndexByte_found [OF j] have jl: "nat ?j < length s" and jc: "rev s ! nat ?j = c"
    by simp_all
  have eq: "LastIndexByte s c = int (length s) - 1 - ?j"
    using j by (simp add: LastIndexByte_def Let_def)
  have n: "nat (LastIndexByte s c) = length s - Suc (nat ?j)"
    using eq j jl by linarith
  have "rev s ! nat ?j = s ! (length s - Suc (nat ?j))"
    using jl by (simp add: rev_nth)
  with jc n jl show ?thesis
    by simp
qed

lemma split_at_index:
  "n < length s \<Longrightarrow> s = take n s @ [s ! n] @ drop (Suc n) s"
  by (simp add: id_take_nth_drop)

lemma SplitHostPort_host_port:
  assumes "SplitHostPort hostport = Inr (host, port)"
  shows "hostport = host @ '':'' @ port \<or> hostport = ''['' @ host @ '']:'' @ port"
proof -
  let ?i = "LastIndexByte hostport CHR '':''"
  from assms have i: "0 \<le> ?i"
    by (auto simp: SplitHostPort_def Let_def split: if_splits)
  from LastIndexByte_found [OF i] have il: "nat ?i < length hostport"
    and ic: "hostport ! nat ?i = CHR '':''"
    by simp_all
  have whole: "hostport = take (nat ?i) hostport @ '':'' @ drop (Suc (nat ?i)) hostport"
    using split_at_index [OF il] ic by simp
  have si: "nat (?i + 1) = Suc (nat ?i)"
    using i by simp
  show ?thesis
  proof (cases "take 1 hostport = ''[''")
    case False
    with assms i have "host = take (nat ?i) hostport" and "port = drop (nat (?i + 1)) hostport"
      by (auto simp: SplitHostPort_def Let_def split: if_splits)
    with whole si show ?thesis
      by simp
  next
    case True
    let ?e = "IndexByte hostport CHR '']''"
    from assms i True have e: "0 \<le> ?e" and ei: "?e + 1 = ?i"
      and h: "host = take (nat ?e - 1) (drop 1 hostport)"
      and p: "port = drop (nat (?i + 1)) hostport"
      by (auto simp: SplitHostPort_def Let_def split: if_splits)
    from IndexByte_found [OF e] have el: "nat ?e < length hostport"
      and ec: "hostport ! nat ?e = CHR '']''"
      by simp_all
    from True obtain rest where hp: "hostport = CHR ''['' # rest"
      by (cases hostport) auto
    have e1: "1 \<le> nat ?e"
    proof (rule ccontr)
      assume "\<not> 1 \<le> nat ?e"
      then have "nat ?e = 0" by simp
      with ec hp show False by simp
    qed
    have ne: "nat ?i = Suc (nat ?e)"
      using ei e by linarith
    have "take (nat ?i) hostport = take (nat ?e) hostport @ [hostport ! nat ?e]"
      using el ne by (simp add: take_Suc_conv_app_nth)
    moreover have "take (nat ?e) hostport = ''['' @ take (nat ?e - 1) (drop 1 hostport)"
      using hp e1 by (cases "nat ?e") simp_all
    ultimately have "take (nat ?i) hostport = ''['' @ host @ '']''"
      using h ec by simp
    with whole p si show ?thesis
      by simp
  qed
qed

text \<open>
  C10 (amended).  The client address is: the trimmed text before the first comma of the
  first \<^verbatim>\<open>X-Forwarded-For\<close> value when that value is not empty; else the trimmed first
  \<^verbatim>\<open>X-Real-IP\<close> value when that value is not empty; else the host that
  \<^verbatim>\<open>net.SplitHostPort\<close> finds in the remote address (the remote address is then
  \<open>host:port\<close> or \<open>[host]:port\<close>), or the whole remote address when it cannot be
  split, as when it has no colon and so no port.  This address is the key of
  the limiter call made for the request, and it is the address in the access-log entry
  that is queued for the request.
\<close>

theorem clientIP_derivation:
  "clientIP r =
     (if Get (Header r) ''X-Forwarded-For'' \<noteq> []
      then TrimSpace (takeWhile (\<lambda>c. c \<noteq> CHR '','') (Get (Header r) ''X-Forwarded-For''))
      else if Get (Header r) ''X-Real-IP'' \<noteq> []
      then TrimSpace (Get (Header r) ''X-Real-IP'')
      else (case SplitHostPort (RemoteAddr r) of
              Inl err \<Rightarrow> RemoteAddr r
            | Inr hp \<Rightarrow> fst hp)) \<and>
   (CHR '':'' \<notin> set (RemoteAddr r) \<longrightarrow> SplitHostPort (RemoteAddr r) = Inl missingPort) \<and>
   (\<forall>host port. SplitHostPort (RemoteAddr r) = Inr (host, port) \<longrightarrow>
      RemoteAddr r = host @ '':'' @ port \<or> RemoteAddr r = ''['' @ host @ '']:'' @ port) \<and>
   snd (rateLimitMiddleware nxt env s r) =
     s\<lparr> limiter := snd (Allow (limiter s) (clientIP r) (clock env)) \<rparr> \<and>
   (\<forall>ch. accessLogCh (snd (nxt' env s r)) = Some ch \<and> length (pending ch) < capacity ch \<longrightarrow>
      accessLogCh (snd (loggingMiddleware nxt' env s r)) =
        Some (ch\<lparr> pending := pending ch @
                 [''[INFO] access: ip='' @ clientIP r @ '' ua='' @
                    quote env (Get (Header r) ''User-Agent'')] \<rparr>))"
proof (intro conjI allI impI)
  show "clientIP r =
     (if Get (Header r) ''X-Forwarded-For'' \<noteq> []
      then TrimSpace (takeWhile (\<lambda>c. c \<noteq> CHR '','') (Get (Header r) ''X-Forwarded-For''))
      else if Get (Header r) ''X-Real-IP'' \<noteq> []
      then TrimSpace (Get (Header r) ''X-Real-IP'')
      else (case SplitHostPort (RemoteAddr r) of
              Inl err \<Rightarrow> RemoteAddr r
            | Inr hp \<Rightarrow> fst hp))"
    by (simp add: clientIP_def Let_def hd_Split_comma)
next
  assume "CHR '':'' \<notin> set (RemoteAddr r)"
  then show "SplitHostPort (RemoteAddr r) = Inl missingPort"
    by (rule SplitHostPort_no_colon)
next
  fix host port
  assume "SplitHostPort (RemoteAddr r) = Inr (host, port)"
  then show "RemoteAddr r = host @ '':'' @ port \<or> RemoteAddr r = ''['' @ host @ '']:'' @ port"
    by (rule SplitHostPort_host_port)
next
  show "snd (rateLimitMiddleware nxt env s r) =
     s\<lparr> limiter := snd (Allow (limiter s) (clientIP r) (clock env)) \<rparr>"
    by (simp add: rateLimitMiddleware_def Let_def)
next
  fix ch
  assume "accessLogCh (snd (nxt' env s r)) = Some ch \<and> length (pending ch) < capacity ch"
  then show "accessLogCh (snd (loggingMiddleware nxt' env s r)) =
        Some (ch\<lparr> pending := pending ch @
                 [''[INFO] access: ip='' @ clientIP r @ '' ua='' @
                    quote env (Get (Header r) ''User-Agent'')] \<rparr>)"
    by (simp add: loggingMiddleware_def Let_def select_send_default_def)
qed

text \<open>
  C10 as stated fails: with an \<^verbatim>\<open>X-Forwarded-For\<close> header that is present and empty,
  the key is not the (empty) first element of that header but the \<^verbatim>\<open>X-Real-IP\<close> value.
\<close>

theorem clientIP_skips_empty_forwarded_for:
  "clientIP_as_stated
       (sample_request [''X-Forwarded-For'' \<mapsto> [[]], ''X-Real-Ip'' \<mapsto> [''198.51.100.9'']]) = [] \<and>
   clientIP
       (sample_request [''X-Forwarded-For'' \<mapsto> [[]], ''X-Real-Ip'' \<mapsto> [''198.51.100.9'']])
     = ''198.51.100.9''"
  by code_simp

theorem clientIP_derivation_witness:
  "SplitHostPort (RemoteAddr (sample_request Map.empty)) = Inr (''203.0.113.7'', ''51234'') \<and>
   clientIP (sample_request Map.empty) = ''203.0.113.7'' \<and>
   CHR '':'' \<notin> set (RemoteAddr ((sample_request Map.empty)\<lparr> RemoteAddr := ''@'' \<rparr>)) \<and>
   clientIP ((sample_request Map.empty)\<lparr> RemoteAddr := ''@'' \<rparr>) = ''@'' \<and>
   accessLogCh (snd (handler sample_env (sample_server defaultIPLimiter [])
        ((sample_request Map.empty)\<lparr> RemoteAddr := ''@'' \<rparr>))) =
     Some \<lparr> pending = [''[INFO] access: ip=@ ua='' @ [char_of (34::nat), char_of (34::nat)]],
            capacity = 10000 \<rparr>"
proof -
  let ?r = "(sample_request Map.empty)\<lparr> RemoteAddr := ''@'' \<rparr>"
  let ?s = "sample_server defaultIPLimiter []"
  let ?ch = "\<lparr> pending = [], capacity = 10000 \<rparr>"
  note d = clientIP_derivation [of ?r mux sample_env ?s "rateLimitMiddleware mux"]
  have nc: "CHR '':'' \<notin> set (RemoteAddr ?r)"
    by simp
  have g: "Get (Header ?r) ''X-Forwarded-For'' = []" "Get (Header ?r) ''X-Real-IP'' = []"
      "Get (Header ?r) ''User-Agent'' = []"
    by (simp_all add: Get_def sample_request_def)
  from d nc have sp: "SplitHostPort (RemoteAddr ?r) = Inl missingPort"
    by blast
  from d g sp have ip: "clientIP ?r = ''@''"
    by simp
  have room: "accessLogCh (snd (rateLimitMiddleware mux sample_env ?s ?r)) = Some ?ch \<and>
              length (pending ?ch) < capacity ?ch"
    by (simp add: rateLimitMiddleware_def Let_def sample_server_def)
  from d room have "accessLogCh (snd (loggingMiddleware (rateLimitMiddleware mux) sample_env ?s ?r)) =
        Some (?ch\<lparr> pending := pending ?ch @
                 [''[INFO] access: ip='' @ clientIP ?r @ '' ua='' @
                    quote sample_env (Get (Header ?r) ''User-Agent'')] \<rparr>)"
    by blast
  then have "accessLogCh (snd (handler sample_env ?s ?r)) =
     Some \<lparr> pending = [''[INFO] access: ip=@ ua='' @ [char_of (34::nat), char_of (34::nat)]],
            capacity = 10000 \<rparr>"
    using ip g by (simp add: handler_def sample_env_def)
  moreover
  have sp2: "SplitHostPort (RemoteAddr (sample_request Map.empty)) = Inr (''203.0.113.7'', ''51234'')"
    by code_simp
  have g2: "Get (Header (sample_request Map.empty)) ''X-Forwarded-For'' = []"
      "Get (Header (sample_request Map.empty)) ''X-Real-IP'' = []"
    by (simp_all add: Get_def sample_request_def)
  from clientIP_derivation [of "sample_request Map.empty" mux sample_env ?s "rateLimitMiddleware mux"]
    g2 sp2
  have "clientIP (sample_request Map.empty) = ''203.0.113.7''"
    by simp
  ultimately show ?thesis
    using nc ip sp2 by blast
qed

section \<open>The health endpoint behind the limiter\<close>

lemma canon_Content_Type: "CanonicalMIMEHeaderKey ''Content-Type'' = ''Content-Type''"
  by code_simp

text \<open>
  C4 (amended).  For every request to the path \<^verbatim>\<open>/healthz\<close>, in every server state
  and whatever the upstream would answer: when the limiter admits the client address, the
  response has status 200, content type \<^verbatim>\<open>text/plain; charset=utf-8\<close> and the body
  \<^verbatim>\<open>ok\<close>, a space and the RFC 3339 text of the current time; when the limiter rejects
  the client address, the response is the 429 \<^verbatim>\<open>Too Many Requests\<close> of any other path.
\<close>

theorem healthz_behind_limiter:
  assumes "URL_Path r = ''/healthz''"
  shows "(fst (Allow (limiter s) (clientIP r) (clock env)) \<longrightarrow>
            fst (handler env s r) =
              \<lparr> status = 200,
                resp_header = [''Content-Type'' \<mapsto> [''text/plain; charset=utf-8'']],
                resp_body = ''ok '' @ rfc3339 env \<rparr>) \<and>
         (\<not> fst (Allow (limiter s) (clientIP r) (clock env)) \<longrightarrow>
            status (fst (handler env s r)) = 429 \<and>
            resp_body (fst (handler env s r)) = ''Too Many Requests'' @ [char_of (10::nat)])"
  using assms
  by (simp add: handler_def loggingMiddleware_def rateLimitMiddleware_def mux_def healthz_def
      tooManyRequests_def textPlain_def Set_def Let_def canon_Content_Type split: option.splits)

lemma sample_clientIP: "clientIP healthz_request = ''203.0.113.7''"
  by code_simp

text \<open>
  C4 as stated fails: after 300 admitted calls at one instant the bucket of the client is
  empty, and its request to \<^verbatim>\<open>/healthz\<close> at that instant is answered with status 429.
\<close>

theorem healthz_rate_limited:
  "URL_Path healthz_request = ''/healthz'' \<and>
   status (fst (handler sample_env
       (sample_server (snd (Allow_seq defaultIPLimiter (replicate 300 (''203.0.113.7'', 0)))) [])
       healthz_request)) = 429"
proof -
  have p: "URL_Path healthz_request = ''/healthz''"
    by (simp add: healthz_request_def)
  have "\<not> fst (Allow (snd (Allow_seq defaultIPLimiter (replicate 300 (''203.0.113.7'', 0))))
                  ''203.0.113.7'' 0)"
    by (simp add: default_after_300 Allow_def refill_def Let_def Sub_def Seconds_def
        maxDuration_def minDuration_def)
  then show ?thesis
    using p
    by (simp add: handler_def loggingMiddleware_def rateLimitMiddleware_def tooManyRequests_def
        Let_def sample_clientIP sample_env_def sample_server_def)
qed


theorem healthz_behind_limiter_witness:
  "URL_Path healthz_request = ''/healthz'' \<and>
   fst (Allow (limiter (sample_server defaultIPLimiter [])) (clientIP healthz_request)
          (clock sample_env)) \<and>
   fst (handler sample_env (sample_server defaultIPLimiter []) healthz_request) =
     \<lparr> status = 200,
       resp_header = [''Content-Type'' \<mapsto> [''text/plain; charset=utf-8'']],
       resp_body = ''ok 2025-01-01T12:00:00Z'' \<rparr> \<and>
   \<not> fst (Allow (limiter (sample_server
                (defaultIPLimiter\<lparr> buckets := [''203.0.113.7'' \<mapsto> \<lparr> tokens = 0, last_time = 0 \<rparr>] \<rparr>) []))
             (clientIP healthz_request) (clock sample_env)) \<and>
   status (fst (handler sample_env
       (sample_server
          (defaultIPLimiter\<lparr> buckets := [''203.0.113.7'' \<mapsto> \<lparr> tokens = 0, last_time = 0 \<rparr>] \<rparr>) [])
       healthz_request)) = 429"
proof -
  let ?s1 = "sample_server defaultIPLimiter []"
  let ?s2 = "sample_server
          (defaultIPLimiter\<lparr> buckets := [''203.0.113.7'' \<mapsto> \<lparr> tokens = 0, last_time = 0 \<rparr>] \<rparr>) []"
  have p: "URL_Path healthz_request = ''/healthz''"
    by (simp add: healthz_request_def)
  have a: "fst (Allow (limiter ?s1) (clientIP healthz_request) (clock sample_env))"
    by (simp add: sample_server_def sample_clientIP Allow_def defaultIPLimiter_buckets)
  have b: "\<not> fst (Allow (limiter ?s2) (clientIP healthz_request) (clock sample_env))"
    by (simp add: sample_server_def sample_clientIP sample_env_def Allow_def refill_def Let_def
        Sub_def Seconds_def maxDuration_def minDuration_def)
  have e: "rfc3339 sample_env = ''2025-01-01T12:00:00Z''"
    by (simp add: sample_env_def)
  from healthz_behind_limiter [OF p, of ?s1 sample_env] a e
  have 1: "fst (handler sample_env ?s1 healthz_request) =
     \<lparr> status = 200,
       resp_header = [''Content-Type'' \<mapsto> [''text/plain; charset=utf-8'']],
       resp_body = ''ok 2025-01-01T12:00:00Z'' \<rparr>"
    by simp
  from healthz_behind_limiter [OF p, of ?s2 sample_env] b
  have 2: "status (fst (handler sample_env ?s2 healthz_request)) = 429"
    by blast
  from p a b 1 2 show ?thesis
    by blast
qed

section \<open>The access-log queue when it is full\<close>

text \<open>
  C7.  When the access-log queue holds its capacity of entries at the moment the logging
  middleware tries to enqueue, the middleware returns what the wrapped handler returned:
  the same response and the same server state, the queue included.  The entry is dropped.
\<close>

theorem loggingMiddleware_drops_when_full:
  assumes "accessLogCh (snd (nxt env s r)) = Some ch"
    and "capacity ch \<le> length (pending ch)"
  shows "loggingMiddleware nxt env s r = nxt env s r \<and>
         accessLogCh (snd (loggingMiddleware nxt env s r)) = Some ch"
proof -
  have "(snd (nxt env s r))\<lparr> accessLogCh := Some ch \<rparr> = snd (nxt env s r)"
    using assms(1) by simp
  then show ?thesis
    using assms by (simp add: loggingMiddleware_def Let_def select_send_default_def prod_eq_iff)
qed

theorem loggingMiddleware_drops_when_full_witness:
  "accessLogCh (snd (rateLimitMiddleware mux sample_env
       (sample_server defaultIPLimiter (replicate 10000 ''entry'')) healthz_request))
     = Some \<lparr> pending = replicate 10000 ''entry'', capacity = 10000 \<rparr> \<and>
   capacity \<lparr> pending = replicate 10000 ''entry'', capacity = 10000 \<rparr>
     \<le> length (pending \<lparr> pending = replicate 10000 ''entry'', capacity = 10000 \<rparr>) \<and>
   handler sample_env (sample_server defaultIPLimiter (replicate 10000 ''entry'')) healthz_request
     = rateLimitMiddleware mux sample_env
         (sample_server defaultIPLimiter (replicate 10000 ''entry'')) healthz_request \<and>
   accessLogCh (snd (handler sample_env
       (sample_server defaultIPLimiter (replicate 10000 ''entry'')) healthz_request))
     = Some \<lparr> pending = replicate 10000 ''entry'', capacity = 10000 \<rparr>"
proof -
  let ?ch = "\<lparr> pending = replicate 10000 ''entry'', capacity = 10000 \<rparr>"
  let ?s = "sample_server defaultIPLimiter (replicate 10000 ''entry'')"
  have a: "accessLogCh (snd (rateLimitMiddleware mux sample_env ?s healthz_request)) = Some ?ch"
    by (simp add: rateLimitMiddleware_def Let_def sample_server_def)
  have b: "capacity ?ch \<le> length (pending ?ch)"
    by simp
  from loggingMiddleware_drops_when_full
         [where nxt = "rateLimitMiddleware mux" and env = sample_env and s = ?s
            and r = healthz_request, OF a b] a b
  show ?thesis
    unfolding handler_def by blast
qed

section \<open>The log writer when rotation fails\<close>

text \<open>
  C6.  When a \<^verbatim>\<open>Write\<close> has to rotate (no file is open, or the open file is of another
  day) and the rotation fails, in the creation of the directory or in the opening of the
  file: the bytes are written to standard output and to no file, \<^verbatim>\<open>Write\<close> returns
  the count and the error of that write, not the error of the rotation, and the writer is
  left as it was.
\<close>

theorem Write_falls_back_to_stdout:
  assumes "file_h w = None \<or> currentDate w \<noteq> today"
    and "mkdirAll os (dir w) \<noteq> None \<or>
         openFile os (dir w @ [pathSeparator os] @ prefix w @ ''-'' @ today @ ''.log'') \<noteq> None"
  shows "fst (Write os w today p) = writeTo os Stdout p \<and>
         fst (snd (Write os w today p)) = w \<and>
         snd (snd (Write os w today p)) =
           (if mkdirAll os (dir w) \<noteq> None then [MkdirAll (dir w)]
            else [MkdirAll (dir w), OpenFile (dir w @ [pathSeparator os] @ prefix w @ ''-'' @ today @ ''.log'')])
           @ [WriteTo Stdout p]"
  using assms
  by (auto simp: Write_def rotate_def Let_def split: option.splits)

theorem Write_falls_back_to_stdout_witness:
  "file_h (newDailyFileWriter ''logs'' ''access'') = None \<and>
   mkdirAll failing_os ''logs'' = None \<and>
   openFile failing_os ''logs/access-2025-01-01.log'' = Some ''permission denied'' \<and>
   fst (Write failing_os (newDailyFileWriter ''logs'' ''access'') ''2025-01-01'' ''line'') = (4, None) \<and>
   snd (snd (Write failing_os (newDailyFileWriter ''logs'' ''access'') ''2025-01-01'' ''line'')) =
     [MkdirAll ''logs'', OpenFile ''logs/access-2025-01-01.log'', WriteTo Stdout ''line'']"
proof -
  let ?w = "newDailyFileWriter ''logs'' ''access''"
  have a: "file_h ?w = None \<or> currentDate ?w \<noteq> ''2025-01-01''"
    by (simp add: newDailyFileWriter_def)
  have b: "mkdirAll failing_os (dir ?w) \<noteq> None \<or>
         openFile failing_os (dir ?w @ [pathSeparator failing_os] @ prefix ?w @ ''-'' @ ''2025-01-01'' @ ''.log'') \<noteq> None"
    by (simp add: failing_os_def)
  from Write_falls_back_to_stdout [OF a b, of "''line''"] a b show ?thesis
    by (simp add: failing_os_def newDailyFileWriter_def)
qed

section \<open>The buffer pool after a Put\<close>

text \<open>
  C9.  A buffer taken from the empty pool has length 32768.  Once it has been returned with
  \<^verbatim>\<open>Put\<close>, which stores \<^verbatim>\<open>b[:0]\<close>, the next \<^verbatim>\<open>Get\<close> that hands it out returns a
  slice of length 0 and capacity 32768.
\<close>

theorem pool_Get_after_Put_is_empty:
  "fst (pool_Get \<lparr> pool = [] \<rparr> None) = \<lparr> len = 32768, cap = 32768 \<rparr> \<and>
   fst (pool_Get
          (pool_Put (snd (pool_Get \<lparr> pool = [] \<rparr> None))
             (Some (fst (pool_Get \<lparr> pool = [] \<rparr> None))))
          (Some 0))
     = \<lparr> len = 0, cap = 32768 \<rparr>"
  by (simp add: pool_Get_def pool_Put_def sync_Pool_Get_def pool_New_def make_bytes_def Let_def)

end
